theory Spec2Isabelle
  imports Complex_Main "HOL-Library.Log_Nat"
begin

chapter \<open>The model\<close>

section \<open>Images and pixel access\<close>

text \<open>
  The scripts hold pictures as PIL images. An image has a size (width, height) and one
  value per coordinate; the model keeps the values row by row in a list.
  A grayscale (mode L) image holds one Python int per pixel, an RGBA image a 4-tuple.
  Channel values are kept as the integers the script passes; the 8-bit storage of the
  library is not part of the model.
\<close>

datatype error = IndexError | OverflowError | ZeroDivisionError | CalledProcessError
  | ValueError | OSError | FileNotFoundError | ImportError | OtherException

record 'p image =
  width :: nat
  height :: nat
  pixels :: "'p list"

type_synonym rgba = "int \<times> int \<times> int \<times> int"

definition wf_image :: "'p image \<Rightarrow> bool" where
  "wf_image im = (length (pixels im) = height im * width im)"

definition Image_new :: "nat \<times> nat \<Rightarrow> 'p \<Rightarrow> 'p image" where
  "Image_new sz color =
     (case sz of (w, h) \<Rightarrow> \<lparr>width = w, height = h, pixels = replicate (h * w) color\<rparr>)"

definition size_of :: "'p image \<Rightarrow> nat \<times> nat" where
  "size_of im = (width im, height im)"

text \<open>
  \<open>getpixel\<close> and \<open>putpixel\<close> raise IndexError outside the image. The loops only call
  them with the non-negative values of \<open>range\<close>, so coordinates are naturals.
\<close>

definition getpixel :: "'p image \<Rightarrow> nat \<times> nat \<Rightarrow> error + 'p" where
  "getpixel im xy =
     (case xy of (x, y) \<Rightarrow>
        if x < width im \<and> y < height im then Inr (pixels im ! (y * width im + x))
        else Inl IndexError)"

definition putpixel :: "'p image \<Rightarrow> nat \<times> nat \<Rightarrow> 'p \<Rightarrow> error + 'p image" where
  "putpixel im xy v =
     (case xy of (x, y) \<Rightarrow>
        if x < width im \<and> y < height im
        then Inr (im\<lparr>pixels := (pixels im)[y * width im + x := v]\<rparr>)
        else Inl IndexError)"

text \<open>
  A \<open>for\<close> loop over a list of values, threading the mutated object; an exception in the
  body leaves the loop.
\<close>

fun for_each :: "'a list \<Rightarrow> ('a \<Rightarrow> 's \<Rightarrow> error + 's) \<Rightarrow> 's \<Rightarrow> error + 's" where
  "for_each [] body s = Inr s"
| "for_each (i # rest) body s =
     (case body i s of Inl e \<Rightarrow> Inl e | Inr s' \<Rightarrow> for_each rest body s')"

section \<open>The threshold recolor loops\<close>

text \<open>
  \<open>process_image_to_white_text\<close> (poemtok\_styled\_text.py, lines 50 to 56): the double loop
  that reads \<open>high_contrast\<close> and writes \<open>processed\<close>.
  \<^verbatim>\<open>
    for y in range(high_contrast.height):
        for x in range(high_contrast.width):
            pixel = high_contrast.getpixel((x, y))
            if pixel > threshold:
                processed.putpixel((x, y), (255, 255, 255, 255))
            else:
                processed.putpixel((x, y), (0, 0, 0, bg_alpha))
  \<close>
  The loops of \<open>process_image\<close> in poemtok\_final.py (lines 51 to 57) and in
  poemtok\_image.py (lines 139 to 145) are the same text with the constant 200 for the
  threshold.
\<close>

definition threshold_loop ::
  "int image \<Rightarrow> int \<Rightarrow> int \<Rightarrow> rgba image \<Rightarrow> error + rgba image" where
  "threshold_loop high_contrast threshold bg_alpha processed0 =
     for_each [0..<height high_contrast] (\<lambda>y.
       for_each [0..<width high_contrast] (\<lambda>x processed.
         case getpixel high_contrast (x, y) of
           Inl e \<Rightarrow> Inl e
         | Inr pixel \<Rightarrow>
             if pixel > threshold then putpixel processed (x, y) (255, 255, 255, 255)
             else putpixel processed (x, y) (0, 0, 0, bg_alpha)))
       processed0"

text \<open>The value one pixel of the two-band loop receives.\<close>

definition two_tone :: "int \<Rightarrow> int \<Rightarrow> int \<Rightarrow> rgba" where
  "two_tone threshold bg_alpha pixel =
     (if pixel > threshold then (255, 255, 255, 255) else (0, 0, 0, bg_alpha))"

text \<open>
  A loop of this shape, with the written value given by a function of the pixel read;
  the proofs about both recolor loops go through it.
\<close>

definition pixel_loop ::
  "('a \<Rightarrow> 'b) \<Rightarrow> 'a image \<Rightarrow> 'b image \<Rightarrow> error + 'b image" where
  "pixel_loop f src dst0 =
     for_each [0..<height src] (\<lambda>y.
       for_each [0..<width src] (\<lambda>x dst.
         case getpixel src (x, y) of
           Inl e \<Rightarrow> Inl e
         | Inr pixel \<Rightarrow> putpixel dst (x, y) (f pixel)))
       dst0"

section \<open>Python floats\<close>

text \<open>
  Python floats are IEEE 754 binary64. A finite float is modelled by the rational it
  denotes, and each arithmetic operation yields the exact result rounded to the nearest
  representable value, ties to even (\<open>fl64\<close>): 53 significant bits, exponent at least
  \<open>-1022\<close> (below that the spacing stays that of the subnormals). The exponent is not
  bounded above in \<open>fl64\<close>; a result of magnitude \<open>2 ^ 1024\<close> or more stands for an
  infinity and is treated where it matters.
\<close>

definition floor_log2 :: "rat \<Rightarrow> int" where
  "floor_log2 r =
     (case quotient_of r of (a, b) \<Rightarrow>
        let d = bitlen a - bitlen b in if 2 powi d \<le> r then d else d - 1)"

definition round_half_even :: "rat \<Rightarrow> int" where
  "round_half_even r =
     (let f = \<lfloor>r\<rfloor>; d = r - of_int f
      in if d < 1 / 2 then f else if 1 / 2 < d then f + 1 else if even f then f else f + 1)"

definition fl64 :: "rat \<Rightarrow> rat" where
  "fl64 r =
     (if r = 0 then 0
      else let e = max (floor_log2 \<bar>r\<bar>) (- 1022); q = 2 powi (e - 52)
           in of_int (round_half_even (r / q)) * q)"

text \<open>
  The imaging library blends in C single precision (binary32): 24 significant bits,
  exponent at least \<open>-126\<close>.
\<close>

definition fl32 :: "rat \<Rightarrow> rat" where
  "fl32 r =
     (if r = 0 then 0
      else let e = max (floor_log2 \<bar>r\<bar>) (- 126); q = 2 powi (e - 23)
           in of_int (round_half_even (r / q)) * q)"

text \<open>\<open>int(x)\<close> on a float truncates towards zero.\<close>

definition py_int :: "rat \<Rightarrow> int" where
  "py_int r = (if 0 \<le> r then \<lfloor>r\<rfloor> else \<lceil>r\<rceil>)"

text \<open>Rounding a quotient of integers to the nearest integer, ties to even; used in proofs.\<close>

definition rhe_int :: "int \<Rightarrow> int \<Rightarrow> int" where
  "rhe_int a b =
     (let f = a div b; r = a mod b
      in if 2 * r < b then f else if b < 2 * r then f + 1 else if even f then f else f + 1)"

text \<open>
  \<open>bg_alpha = int(255 * bg_opacity)\<close> (poemtok\_final.py line 48, and the same line in the
  other scripts). \<open>int\<close> of an infinity raises OverflowError.
\<close>

definition bg_alpha_of :: "rat \<Rightarrow> error + int" where
  "bg_alpha_of bg_opacity =
     (let x = fl64 (255 * bg_opacity)
      in if 2 ^ 1024 \<le> \<bar>x\<bar> then Inl OverflowError else Inr (py_int x))"

text \<open>\<open>alpha = int(255 * (pixel / 255.0))\<close> (poemtok\_screenshot.py line 95).\<close>

definition midtone_alpha :: "int \<Rightarrow> int" where
  "midtone_alpha pixel = py_int (fl64 (255 * fl64 (of_int pixel / 255)))"

section \<open>The three-band loop and the recolor steps\<close>

text \<open>
  \<open>process_image\<close> of poemtok\_screenshot.py, lines 89 to 98:
  \<^verbatim>\<open>
    for y in range(gray_image.height):
        for x in range(gray_image.width):
            pixel = gray_image.getpixel((x, y))
            if pixel > 200:
                processed.putpixel((x, y), (255, 255, 255, 255))
            elif pixel > 100:
                alpha = int(255 * (pixel / 255.0))
                processed.putpixel((x, y), (255, 255, 255, alpha))
            else:
                processed.putpixel((x, y), (0, 0, 0, bg_alpha))
  \<close>
\<close>

definition soft_edge_loop :: "int image \<Rightarrow> int \<Rightarrow> rgba image \<Rightarrow> error + rgba image" where
  "soft_edge_loop gray_image bg_alpha processed0 =
     for_each [0..<height gray_image] (\<lambda>y.
       for_each [0..<width gray_image] (\<lambda>x processed.
         case getpixel gray_image (x, y) of
           Inl e \<Rightarrow> Inl e
         | Inr pixel \<Rightarrow>
             if pixel > 200 then putpixel processed (x, y) (255, 255, 255, 255)
             else if pixel > 100 then
               (let alpha = midtone_alpha pixel
                in putpixel processed (x, y) (255, 255, 255, alpha))
             else putpixel processed (x, y) (0, 0, 0, bg_alpha)))
       processed0"

definition three_tone :: "int \<Rightarrow> int \<Rightarrow> rgba" where
  "three_tone bg_alpha pixel =
     (if pixel > 200 then (255, 255, 255, 255)
      else if pixel > 100 then (255, 255, 255, midtone_alpha pixel)
      else (0, 0, 0, bg_alpha))"

text \<open>
  The recolor step of each script: the new transparent image, the background alpha and
  the loop. \<open>final_overlay\<close> is lines 44 to 57 of poemtok\_final.py,
  \<open>styled_text_overlay\<close> lines 43 to 56 of poemtok\_styled\_text.py,
  \<open>image_overlay\<close> lines 133 to 145 of poemtok\_image.py and
  \<open>screenshot_overlay\<close> lines 82 to 98 of poemtok\_screenshot.py. Their argument is the
  grayscale image the loop reads (\<open>high_contrast\<close>, \<open>smoothed\<close>, \<open>gray_image\<close>).
\<close>

definition final_overlay :: "int image \<Rightarrow> rat \<Rightarrow> error + rgba image" where
  "final_overlay high_contrast bg_opacity =
     (let processed = Image_new (size_of high_contrast) (0, 0, 0, 0)
      in case bg_alpha_of bg_opacity of
           Inl e \<Rightarrow> Inl e
         | Inr bg_alpha \<Rightarrow> threshold_loop high_contrast 200 bg_alpha processed)"

definition styled_text_overlay :: "int image \<Rightarrow> rat \<Rightarrow> int \<Rightarrow> error + rgba image" where
  "styled_text_overlay high_contrast bg_opacity threshold =
     (let processed = Image_new (size_of high_contrast) (0, 0, 0, 0)
      in case bg_alpha_of bg_opacity of
           Inl e \<Rightarrow> Inl e
         | Inr bg_alpha \<Rightarrow> threshold_loop high_contrast threshold bg_alpha processed)"

definition image_overlay :: "int image \<Rightarrow> rat \<Rightarrow> error + rgba image" where
  "image_overlay smoothed bg_opacity =
     (let processed = Image_new (size_of smoothed) (0, 0, 0, 0)
      in case bg_alpha_of bg_opacity of
           Inl e \<Rightarrow> Inl e
         | Inr bg_alpha \<Rightarrow> threshold_loop smoothed 200 bg_alpha processed)"

definition screenshot_overlay :: "int image \<Rightarrow> rat \<Rightarrow> error + rgba image" where
  "screenshot_overlay gray_image bg_opacity =
     (let processed = Image_new (size_of gray_image) (0, 0, 0, 0)
      in case bg_alpha_of bg_opacity of
           Inl e \<Rightarrow> Inl e
         | Inr bg_alpha \<Rightarrow> soft_edge_loop gray_image bg_alpha processed)"

section \<open>The steps before the loop\<close>

text \<open>
  Before the loop, \<open>process_image\<close> of poemtok\_final.py (lines 32 to 42) converts the
  picture to grayscale, inverts it and enhances its contrast, all three by calls into the
  imaging library. The library is not part of the repository; the three definitions below
  follow its documented behaviour:
  \<^item> \<open>ImageOps.invert\<close> maps each value \<open>v\<close> of an 8-bit image to \<open>255 - v\<close>;
  \<^item> \<open>ImageEnhance.Contrast(image)\<close> takes the mean of the grayscale image, rounded
    (\<open>int(mean + 0.5)\<close>), and \<open>enhance(factor)\<close> blends the uniform image of that mean
    with the image: \<open>mean + factor * (v - mean)\<close>, truncated, and clipped to 0..255 when
    the factor is outside 0..1. The mean of an image without pixels divides by zero.
    The blend is computed in single precision: the factor is converted to binary32, and
    the product and the sum are each rounded to binary32 (factors of a magnitude that
    overflows single precision are outside the model);
  \<^item> \<open>convert("L")\<close> of an RGBA pixel is the luma
    \<open>(19595 R + 38470 G + 7471 B + 32768) div 65536\<close>, the alpha being dropped.
\<close>

definition ImageOps_invert :: "int image \<Rightarrow> int image" where
  "ImageOps_invert im = im\<lparr>pixels := map (\<lambda>v. 255 - v) (pixels im)\<rparr>"

definition Stat_mean :: "int image \<Rightarrow> error + rat" where
  "Stat_mean im =
     (if pixels im = [] then Inl ZeroDivisionError
      else Inr (fl64 (of_int (sum_list (pixels im)) / of_nat (length (pixels im)))))"

definition blend :: "int \<Rightarrow> int \<Rightarrow> rat \<Rightarrow> int" where
  "blend v1 v2 factor =
     (let alpha = fl32 factor
      in if alpha = 0 then v1
         else if alpha = 1 then v2
         else let temp = fl32 (of_int v1 + fl32 (alpha * of_int (v2 - v1)))
              in if 0 \<le> alpha \<and> alpha \<le> 1 then py_int temp
                 else if temp \<le> 0 then 0
                 else if 255 \<le> temp then 255
                 else py_int temp)"

definition Contrast_enhance :: "int image \<Rightarrow> rat \<Rightarrow> error + int image" where
  "Contrast_enhance im factor =
     (case Stat_mean im of
        Inl e \<Rightarrow> Inl e
      | Inr m \<Rightarrow>
          let mean = py_int (fl64 (m + 1 / 2))
          in Inr (im\<lparr>pixels := map (\<lambda>v. blend mean v factor) (pixels im)\<rparr>))"

definition convert_L :: "rgba image \<Rightarrow> int image" where
  "convert_L im =
     \<lparr>width = width im, height = height im,
      pixels = map (\<lambda>(r, g, b, a). (19595 * r + 38470 * g + 7471 * b + 32768) div 65536)
                 (pixels im)\<rparr>"

text \<open>
  \<open>process_image\<close> of poemtok\_final.py from the grayscale picture on (lines 38 to 57);
  saving the result is left out.
\<close>

definition process_image :: "int image \<Rightarrow> rat \<Rightarrow> rat \<Rightarrow> error + rgba image" where
  "process_image gray_image bg_opacity contrast =
     (let inverted = ImageOps_invert gray_image
      in case Contrast_enhance inverted contrast of
           Inl e \<Rightarrow> Inl e
         | Inr high_contrast \<Rightarrow> final_overlay high_contrast bg_opacity)"

section \<open>Page ranges and the per-page loops\<close>

text \<open>
  \<open>PoemTok.process\<close> (poemtok.py, lines 292 to 295) and
  \<open>PoemTokImage.convert_pdf_to_images\<close> (poemtok\_image.py, lines 77 to 80) adjust the
  requested range in the same words:
  \<^verbatim>\<open>
    start_page = max(1, start_page)
    if end_page is None or end_page > len(pages):
        end_page = len(pages)
  \<close>
\<close>

definition adjust_page_range :: "int \<Rightarrow> int option \<Rightarrow> nat \<Rightarrow> int \<times> int" where
  "adjust_page_range start_page end_page total_pages =
     (let start_page' = max 1 start_page;
          end_page' = (case end_page of
                         None \<Rightarrow> int total_pages
                       | Some e \<Rightarrow> if e > int total_pages then int total_pages else e)
      in (start_page', end_page'))"

definition py_range :: "int \<Rightarrow> int \<Rightarrow> int list" where
  "py_range a b = [a..b - 1]"

text \<open>\<open>pages[i]\<close>: an index below zero counts from the end of the list.\<close>

definition py_index :: "'a list \<Rightarrow> int \<Rightarrow> error + 'a" where
  "py_index xs i =
     (if 0 \<le> i \<and> i < int (length xs) then Inr (xs ! nat i)
      else if i < 0 \<and> - int (length xs) \<le> i then Inr (xs ! nat (int (length xs) + i))
      else Inl IndexError)"

text \<open>
  \<open>PoemTok.process\<close> (poemtok.py, lines 292 to 324). \<open>create_video\<close> renders one page
  with the video library and has no handler of its own: it returns or raises. Its outcome
  for a page and page number is a parameter. A created video is recorded by the page
  number that names its file (\<open>i + 1\<close>).
\<close>

definition PoemTok_process ::
  "'page list \<Rightarrow> ('page \<Rightarrow> int \<Rightarrow> error + unit) \<Rightarrow> int \<Rightarrow> int option \<Rightarrow> error + int list" where
  "PoemTok_process pages create_video start_page end_page =
     (case adjust_page_range start_page end_page (length pages) of
        (start_page', end_page') \<Rightarrow>
          for_each (py_range (start_page' - 1) end_page') (\<lambda>i output_videos.
            case py_index pages i of
              Inl e \<Rightarrow> Inl e
            | Inr page \<Rightarrow>
                (case create_video page (i + 1) of
                   Inl e \<Rightarrow> Inl e
                 | Inr _ \<Rightarrow> Inr (output_videos @ [i + 1])))
            [])"

text \<open>
  An external tool run through \<open>subprocess.run(command, check=True, ...)\<close> either exits
  with a code, and a non-zero code raises CalledProcessError, or cannot be started, which
  raises an OSError.
\<close>

datatype proc = Exited int | NotStarted

definition subprocess_run :: "proc \<Rightarrow> error + unit" where
  "subprocess_run p =
     (case p of
        Exited c \<Rightarrow> if c = 0 then Inr () else Inl CalledProcessError
      | NotStarted \<Rightarrow> Inl OSError)"

text \<open>
  \<open>PoemTokImage.create_video_with_image\<close> (poemtok\_image.py, lines 183 to 189) and the
  loop of \<open>PoemTokImage.process\<close> (lines 215 to 237). The outcome of the tool for the
  video of each page number is a parameter.
\<close>

definition create_video_with_image :: "proc \<Rightarrow> 'path \<Rightarrow> error + 'path option" where
  "create_video_with_image run output_path =
     (case subprocess_run run of
        Inr _ \<Rightarrow> Inr (Some output_path)
      | Inl e \<Rightarrow> if e = CalledProcessError then Inr None else Inl e)"

definition PoemTokImage_process ::
  "'img list \<Rightarrow> (int \<Rightarrow> proc) \<Rightarrow> int \<Rightarrow> error + int list" where
  "PoemTokImage_process processed_images ffmpeg start_page =
     for_each (enumerate 0 processed_images) (\<lambda>(i, image_path) output_videos.
       let output_path = int i + start_page
       in case create_video_with_image (ffmpeg output_path) output_path of
            Inl e \<Rightarrow> Inl e
          | Inr result \<Rightarrow>
              (case result of
                 Some r \<Rightarrow> Inr (output_videos @ [r])
               | None \<Rightarrow> Inr output_videos))
       []"

section \<open>The fallback chain of poemtok\_fixed.py\<close>

text \<open>
  The outcome of each external command is taken from a record; the functions log the
  commands they run. \<open>float(duration_str)\<close> either raises ValueError (\<open>None\<close>) or gives a
  float, which may be an infinity or a NaN. Removing the temporary file is taken to
  succeed.

  Line 33, before the \<open>try\<close>: \<open>os.makedirs(os.path.dirname(output_path), exist_ok=True)\<close>.
  \<open>os.path.dirname\<close> is the path up to its last slash, without trailing slashes unless it
  consists of slashes only. \<open>os.makedirs\<close> of the empty name raises FileNotFoundError;
  whether another directory can be created is taken from the record.
\<close>

definition os_path_dirname :: "string \<Rightarrow> string" where
  "os_path_dirname p =
     (let head = rev (dropWhile (\<lambda>c. c \<noteq> CHR ''/'') (rev p))
      in if head \<noteq> [] \<and> dropWhile (\<lambda>c. c = CHR ''/'') head \<noteq> []
         then rev (dropWhile (\<lambda>c. c = CHR ''/'') (rev head))
         else head)"

definition os_makedirs :: "bool \<Rightarrow> string \<Rightarrow> error + unit" where
  "os_makedirs creatable name =
     (if name = [] then Inl FileNotFoundError
      else if creatable then Inr ()
      else Inl OSError)"

datatype pyfloat = Finite rat | PosInf | NegInf | NaN

definition float_less :: "pyfloat \<Rightarrow> rat \<Rightarrow> bool" where
  "float_less x c =
     (case x of Finite q \<Rightarrow> q < c | NegInf \<Rightarrow> True | PosInf \<Rightarrow> False | NaN \<Rightarrow> False)"

datatype command = FfmpegOverlay | Ffprobe | FfmpegImageVideo | FfmpegOverlayTemp | FfmpegDirect

record tools =
  dir_creatable :: bool
  overlay_run :: proc
  probe_run :: proc
  probe_duration :: "pyfloat option"
  image_video_run :: proc
  overlay_temp_run :: proc
  direct_run :: proc

definition create_video_direct ::
  "tools \<Rightarrow> 'path \<Rightarrow> command list \<Rightarrow> command list \<times> (error + 'path option)" where
  "create_video_direct t output_path cmds =
     (let log1 = cmds @ [FfmpegDirect]
      in case subprocess_run (direct_run t) of
           Inr _ \<Rightarrow> (log1, Inr (Some output_path))
         | Inl e \<Rightarrow> if e = CalledProcessError then (log1, Inr None) else (log1, Inl e))"

definition create_video_alternative ::
  "tools \<Rightarrow> 'path \<Rightarrow> command list \<Rightarrow> command list \<times> (error + 'path option)" where
  "create_video_alternative t output_path cmds =
     (let log1 = cmds @ [FfmpegImageVideo]
      in case subprocess_run (image_video_run t) of
           Inl e \<Rightarrow>
             if e = CalledProcessError then create_video_direct t output_path log1
             else (log1, Inl e)
         | Inr _ \<Rightarrow>
             (let log2 = log1 @ [FfmpegOverlayTemp]
              in case subprocess_run (overlay_temp_run t) of
                   Inl e \<Rightarrow>
                     if e = CalledProcessError then create_video_direct t output_path log2
                     else (log2, Inl e)
                 | Inr _ \<Rightarrow> (log2, Inr (Some output_path))))"

definition create_video_with_overlay ::
  "tools \<Rightarrow> string \<Rightarrow> command list \<times> (error + string option)" where
  "create_video_with_overlay t output_path =
     (case os_makedirs (dir_creatable t) (os_path_dirname output_path) of
        Inl e \<Rightarrow> ([], Inl e)
      | Inr _ \<Rightarrow>
          (let log1 = [FfmpegOverlay]
           in case subprocess_run (overlay_run t) of
                Inl e \<Rightarrow>
                  if e = CalledProcessError then create_video_alternative t output_path log1
                  else (log1, Inl e)
              | Inr _ \<Rightarrow>
                  (let log2 = log1 @ [Ffprobe]
                   in case subprocess_run (probe_run t) of
                        Inl e \<Rightarrow>
                          if e = CalledProcessError
                          then create_video_alternative t output_path log2
                          else (log2, Inl e)
                      | Inr _ \<Rightarrow>
                          (case probe_duration t of
                             None \<Rightarrow> create_video_alternative t output_path log2
                           | Some actual_duration \<Rightarrow>
                               if float_less actual_duration (fl64 (1 / 10))
                               then create_video_alternative t output_path log2
                               else (log2, Inr (Some output_path))))))"

text \<open>What it means for each level of the chain to succeed.\<close>

definition primary_ok :: "tools \<Rightarrow> bool" where
  "primary_ok t =
     (overlay_run t = Exited 0 \<and> probe_run t = Exited 0
      \<and> (case probe_duration t of
            None \<Rightarrow> False
          | Some d \<Rightarrow> \<not> float_less d (fl64 (1 / 10))))"

definition alternative_ok :: "tools \<Rightarrow> bool" where
  "alternative_ok t = (image_video_run t = Exited 0 \<and> overlay_temp_run t = Exited 0)"

definition direct_ok :: "tools \<Rightarrow> bool" where
  "direct_ok t = (direct_run t = Exited 0)"

definition launched :: "proc \<Rightarrow> bool" where
  "launched p = (case p of Exited c \<Rightarrow> True | NotStarted \<Rightarrow> False)"

definition all_launched :: "tools \<Rightarrow> bool" where
  "all_launched t =
     (launched (overlay_run t) \<and> launched (probe_run t) \<and> launched (image_video_run t)
      \<and> launched (overlay_temp_run t) \<and> launched (direct_run t))"

section \<open>The optional OCR of poemtok.py\<close>

text \<open>
  Lines 36 to 41: the import of \<open>pytesseract\<close> is tried once when the module is loaded, and
  an ImportError sets the flag to false.
\<close>

definition import_pytesseract :: "bool \<Rightarrow> error + unit" where
  "import_pytesseract installed = (if installed then Inr () else Inl ImportError)"

definition HAS_PYTESSERACT :: "bool \<Rightarrow> error + bool" where
  "HAS_PYTESSERACT installed =
     (case import_pytesseract installed of
        Inr _ \<Rightarrow> Inr True
      | Inl e \<Rightarrow> if e = ImportError then Inr False else Inl e)"

text \<open>
  \<open>create_text_overlay\<close> (lines 161 to 217). The OCR call and the text styler are
  parameters that return or raise. The image-based overlay is described by its geometry.
  Resolutions and page sizes are pixel counts, far below the magnitude at which a float
  overflows.
\<close>

record geometry =
  new_size :: "int \<times> int"
  pos :: "int \<times> int"
  rectangle :: "int \<times> int \<times> int \<times> int"

datatype 'o overlay = Styled 'o | ImageBased geometry

text \<open>
  A character of the model is a code point below 256; those that \<open>str.strip\<close> removes
  are the ASCII separators, U+0085 and U+00A0.
\<close>

definition py_isspace :: "char \<Rightarrow> bool" where
  "py_isspace c = (c \<in> set [CHR '' '', CHR 0x09, CHR 0x0A, CHR 0x0B, CHR 0x0C, CHR 0x0D,
                             CHR 0x1C, CHR 0x1D, CHR 0x1E, CHR 0x1F, CHR 0x85, CHR 0xA0])"

definition strip :: "string \<Rightarrow> string" where
  "strip s = rev (dropWhile py_isspace (rev (dropWhile py_isspace s)))"

definition py_float_div :: "rat \<Rightarrow> int \<Rightarrow> error + rat" where
  "py_float_div a b = (if b = 0 then Inl ZeroDivisionError else Inr (fl64 (a / of_int b)))"

text \<open>
  Lines 183 to 189: the size of the page scaled into 80 percent of the frame.
\<close>

definition scaled_size :: "int \<times> int \<Rightarrow> int \<times> int \<Rightarrow> error + int \<times> int" where
  "scaled_size resolution page_size =
     (case (resolution, page_size) of
        ((res_w, res_h), (page_w, page_h)) \<Rightarrow>
          (case py_float_div (fl64 (of_int res_w * fl64 (4 / 5))) page_w of
             Inl e \<Rightarrow> Inl e
           | Inr sx \<Rightarrow>
               (case py_float_div (fl64 (of_int res_h * fl64 (4 / 5))) page_h of
                  Inl e \<Rightarrow> Inl e
                | Inr sy \<Rightarrow>
                    let scale = min sx sy
                    in Inr (py_int (fl64 (of_int page_w * scale)),
                            py_int (fl64 (of_int page_h * scale))))))"

text \<open>
  Lines 179 to 217. \<open>Image.new\<close> raises ValueError for a negative side of the frame, and
  \<open>resize\<close> raises ValueError when a side of the new size is below 1; neither call is
  inside a \<open>try\<close>.
\<close>

definition image_based_overlay :: "int \<times> int \<Rightarrow> int \<times> int \<Rightarrow> error + geometry" where
  "image_based_overlay resolution page_size =
     (case resolution of
        (res_w, res_h) \<Rightarrow>
          if res_w < 0 \<or> res_h < 0 then Inl ValueError
          else
            (case scaled_size resolution page_size of
               Inl e \<Rightarrow> Inl e
             | Inr (new_w, new_h) \<Rightarrow>
                 if new_w < 1 \<or> new_h < 1 then Inl ValueError
                 else
                   let pos_x = (res_w - new_w) div 2;
                       pos_y = (res_h - new_h) div 2;
                       padding = 60
                   in Inr \<lparr>new_size = (new_w, new_h), pos = (pos_x, pos_y),
                           rectangle = (pos_x - padding, pos_y - padding,
                                        pos_x + new_w + padding, pos_y + new_h + padding)\<rparr>))"

definition create_text_overlay ::
  "bool \<Rightarrow> ('img \<Rightarrow> error + string) \<Rightarrow> (string \<Rightarrow> error + 'o) \<Rightarrow> int \<times> int
     \<Rightarrow> 'img \<Rightarrow> int \<times> int \<Rightarrow> error + 'o overlay" where
  "create_text_overlay has_pytesseract image_to_string create_minimalist_overlay resolution
       page_image page_size =
     (let fallback = (case image_based_overlay resolution page_size of
                        Inl e \<Rightarrow> Inl e
                      | Inr g \<Rightarrow> Inr (ImageBased g))
      in if has_pytesseract then
           (case image_to_string page_image of
              Inl e \<Rightarrow> fallback
            | Inr text \<Rightarrow>
                if text \<noteq> [] \<and> length (strip text) > 0 then
                  (case create_minimalist_overlay text of
                     Inl e \<Rightarrow> fallback
                   | Inr overlay \<Rightarrow> Inr (Styled overlay))
                else fallback)
         else fallback)"

chapter \<open>Proofs\<close>

section \<open>What the loops compute\<close>

lemma for_each_append:
  "for_each (xs @ ys) body s =
     (case for_each xs body s of Inl e \<Rightarrow> Inl e | Inr s' \<Rightarrow> for_each ys body s')"
  by (induction xs arbitrary: s) (auto split: sum.splits)

lemma index_in_grid:
  fixes x y w h :: nat
  assumes "x < w" "y < h"
  shows "y * w + x < h * w"
proof -
  have "y * w + x < Suc y * w" using assms(1) by simp
  also have "\<dots> \<le> h * w" using assms(2) by (intro mult_le_mono1) simp
  finally show ?thesis .
qed

lemma write_next:
  assumes "k < length src" "length d0 = length src"
  shows "(map f (take k src) @ drop k d0)[k := f (src ! k)]
           = map f (take (Suc k) src) @ drop (Suc k) d0"
proof -
  have len: "length (map f (take k src)) = k" using assms(1) by simp
  have "drop k d0 = d0 ! k # drop (Suc k) d0"
    using assms by (simp add: Cons_nth_drop_Suc)
  then have "(map f (take k src) @ drop k d0)[k := f (src ! k)]
               = map f (take k src) @ (f (src ! k) # drop (Suc k) d0)"
    using len by (simp add: list_update_append)
  also have "\<dots> = map f (take (Suc k) src) @ drop (Suc k) d0"
    using assms(1) by (simp add: take_Suc_conv_app_nth)
  finally show ?thesis .
qed

lemma row_loop:
  assumes "n \<le> width src" "y < height src" "wf_image src" "length d0 = length (pixels src)"
  shows "for_each [0..<n] (\<lambda>x dst.
           case getpixel src (x, y) of
             Inl e \<Rightarrow> Inl e
           | Inr pixel \<Rightarrow> putpixel dst (x, y) (f pixel))
           \<lparr>width = width src, height = height src,
            pixels = map f (take (y * width src) (pixels src)) @ drop (y * width src) d0\<rparr>
         = Inr \<lparr>width = width src, height = height src,
                pixels = map f (take (y * width src + n) (pixels src))
                           @ drop (y * width src + n) d0\<rparr>"
  using assms(1)
proof (induction n)
  case 0
  show ?case by simp
next
  case (Suc n)
  have n: "n < width src" using Suc.prems by simp
  have k: "y * width src + n < length (pixels src)"
    using index_in_grid [OF n assms(2)] assms(3) by (simp add: wf_image_def)
  have step: "(map f (take (y * width src + n) (pixels src)) @ drop (y * width src + n) d0)
                 [y * width src + n := f (pixels src ! (y * width src + n))]
              = map f (take (Suc (y * width src + n)) (pixels src))
                  @ drop (Suc (y * width src + n)) d0"
    by (rule write_next [OF k assms(4)])
  show ?case
    using Suc.IH n assms(2) step
    by (simp add: for_each_append getpixel_def putpixel_def)
qed

lemma rows_loop:
  assumes "m \<le> height src" "wf_image src" "length d0 = length (pixels src)"
  shows "for_each [0..<m] (\<lambda>y.
           for_each [0..<width src] (\<lambda>x dst.
             case getpixel src (x, y) of
               Inl e \<Rightarrow> Inl e
             | Inr pixel \<Rightarrow> putpixel dst (x, y) (f pixel)))
           \<lparr>width = width src, height = height src, pixels = d0\<rparr>
         = Inr \<lparr>width = width src, height = height src,
                pixels = map f (take (m * width src) (pixels src)) @ drop (m * width src) d0\<rparr>"
  using assms(1)
proof (induction m)
  case 0
  show ?case by simp
next
  case (Suc m)
  have m: "m < height src" using Suc.prems by simp
  have row: "for_each [0..<width src] (\<lambda>x dst.
           case getpixel src (x, m) of
             Inl e \<Rightarrow> Inl e
           | Inr pixel \<Rightarrow> putpixel dst (x, m) (f pixel))
           \<lparr>width = width src, height = height src,
            pixels = map f (take (m * width src) (pixels src)) @ drop (m * width src) d0\<rparr>
         = Inr \<lparr>width = width src, height = height src,
                pixels = map f (take (m * width src + width src) (pixels src))
                           @ drop (m * width src + width src) d0\<rparr>"
    by (rule row_loop [OF order_refl m assms(2) assms(3)])
  show ?case
    using Suc.IH m row by (simp add: for_each_append add.commute)
qed

lemma pixel_loop_closed_form:
  assumes "wf_image src" "wf_image dst0"
    and "width dst0 = width src" "height dst0 = height src"
  shows "pixel_loop f src dst0
           = Inr \<lparr>width = width src, height = height src, pixels = map f (pixels src)\<rparr>"
proof -
  have len: "length (pixels dst0) = length (pixels src)"
    using assms by (simp add: wf_image_def)
  have dst0: "dst0 = \<lparr>width = width src, height = height src, pixels = pixels dst0\<rparr>"
    using assms(3,4) by simp
  have "pixel_loop f src dst0
          = pixel_loop f src \<lparr>width = width src, height = height src, pixels = pixels dst0\<rparr>"
    using dst0 by simp
  also have "\<dots> = Inr \<lparr>width = width src, height = height src,
                pixels = map f (take (height src * width src) (pixels src))
                           @ drop (height src * width src) (pixels dst0)\<rparr>"
    unfolding pixel_loop_def by (rule rows_loop [OF order_refl assms(1) len])
  also have "\<dots> = Inr \<lparr>width = width src, height = height src, pixels = map f (pixels src)\<rparr>"
    using assms(1) len by (simp add: wf_image_def)
  finally show ?thesis .
qed

lemma threshold_loop_is_pixel_loop:
  "threshold_loop src threshold bg_alpha dst0 = pixel_loop (two_tone threshold bg_alpha) src dst0"
proof -
  have "(\<lambda>x processed. case getpixel src (x, y) of
           Inl e \<Rightarrow> Inl e
         | Inr pixel \<Rightarrow>
             if pixel > threshold then putpixel processed (x, y) (255, 255, 255, 255)
             else putpixel processed (x, y) (0, 0, 0, bg_alpha))
        = (\<lambda>x dst. case getpixel src (x, y) of
           Inl e \<Rightarrow> Inl e
         | Inr pixel \<Rightarrow> putpixel dst (x, y) (two_tone threshold bg_alpha pixel))" for y
    by (intro ext) (simp add: two_tone_def split: sum.splits)
  then show ?thesis
    by (simp add: threshold_loop_def pixel_loop_def)
qed

section \<open>Rounding\<close>

lemma round_half_even_quotient:
  assumes "0 < b"
  shows "round_half_even (of_int a / of_int b) = rhe_int a b"
proof -
  have fl: "\<lfloor>(of_int a / of_int b :: rat)\<rfloor> = a div b"
    by (rule floor_divide_of_int_eq)
  have "a = (a div b) * b + a mod b" by simp
  then have "(of_int a :: rat) = of_int ((a div b) * b + a mod b)" by simp
  then have "(of_int a :: rat) = of_int (a div b) * of_int b + of_int (a mod b)"
    by (simp only: of_int_add of_int_mult)
  then have d: "(of_int a / of_int b :: rat) - of_int (a div b) = of_int (a mod b) / of_int b"
    using assms by (simp add: field_simps)
  have "(of_int (a mod b) / of_int b :: rat) < 1 / 2
          \<longleftrightarrow> (of_int (2 * (a mod b)) :: rat) < of_int b"
    using assms by (simp add: field_simps)
  then have lt: "(of_int (a mod b) / of_int b :: rat) < 1 / 2 \<longleftrightarrow> 2 * (a mod b) < b"
    by (simp only: of_int_less_iff)
  have "1 / 2 < (of_int (a mod b) / of_int b :: rat)
          \<longleftrightarrow> (of_int b :: rat) < of_int (2 * (a mod b))"
    using assms by (simp add: field_simps)
  then have gt: "1 / 2 < (of_int (a mod b) / of_int b :: rat) \<longleftrightarrow> b < 2 * (a mod b)"
    by (simp only: of_int_less_iff)
  show ?thesis
    unfolding round_half_even_def rhe_int_def Let_def fl d lt gt by simp
qed

lemma floor_log2_bounds:
  assumes "0 < r"
  shows "2 powi (floor_log2 r) \<le> r \<and> r < 2 powi (floor_log2 r + 1)"
proof -
  obtain a b where q: "quotient_of r = (a, b)" by (cases "quotient_of r")
  have b: "0 < b" using q quotient_of_denom_pos by blast
  have r: "r = of_int a / of_int b" using q by (rule quotient_of_div)
  have a: "0 < a" using assms b r by (simp add: zero_less_divide_iff)
  define la lb where "la = bitlen a" and "lb = bitlen b"
  have la: "2 ^ nat (la - 1) \<le> a" "a < 2 ^ nat la" and lb: "2 ^ nat (lb - 1) \<le> b" "b < 2 ^ nat lb"
    using bitlen_bounds [OF a] bitlen_bounds [OF b] by (simp_all add: la_def lb_def)
  have pos: "1 \<le> la" "1 \<le> lb"
    using a b bitlen_eq_zero_iff [of a] bitlen_eq_zero_iff [of b] bitlen_nonneg [of a] bitlen_nonneg [of b]
    by (simp_all add: la_def lb_def)
  have A: "(2::rat) powi (la - 1) \<le> of_int a" "(of_int a :: rat) < 2 powi la"
  proof -
    have "(of_int (2 ^ nat (la - 1)) :: rat) \<le> of_int a" using la(1) by (simp only: of_int_le_iff)
    then show "(2::rat) powi (la - 1) \<le> of_int a" using pos by (simp add: power_int_nonneg_exp)
    have "(of_int a :: rat) < of_int (2 ^ nat la)" using la(2) by (simp only: of_int_less_iff)
    then show "(of_int a :: rat) < 2 powi la" using pos by (simp add: power_int_nonneg_exp)
  qed
  have B: "(2::rat) powi (lb - 1) \<le> of_int b" "(of_int b :: rat) < 2 powi lb"
  proof -
    have "(of_int (2 ^ nat (lb - 1)) :: rat) \<le> of_int b" using lb(1) by (simp only: of_int_le_iff)
    then show "(2::rat) powi (lb - 1) \<le> of_int b" using pos by (simp add: power_int_nonneg_exp)
    have "(of_int b :: rat) < of_int (2 ^ nat lb)" using lb(2) by (simp only: of_int_less_iff)
    then show "(of_int b :: rat) < 2 powi lb" using pos by (simp add: power_int_nonneg_exp)
  qed
  have bpos: "(0::rat) < of_int b" using b by simp
  have apos: "(0::rat) < of_int a" using a by simp
  have up: "r < 2 powi (la - lb + 1)"
  proof -
    have "r < 2 powi la / of_int b"
      unfolding r using A(2) bpos by (rule divide_strict_right_mono)
    also have "\<dots> \<le> 2 powi la / 2 powi (lb - 1)"
      using B(1) by (intro divide_left_mono) (simp_all add: b)
    also have "\<dots> = 2 powi (la - (lb - 1))"
      by (simp add: power_int_diff)
    finally show ?thesis by (simp add: algebra_simps)
  qed
  have lo: "2 powi (la - lb - 1) < r"
  proof -
    have "(2::rat) powi (la - lb - 1) = 2 powi ((la - 1) - lb)" by (simp add: algebra_simps)
    also have "\<dots> = 2 powi (la - 1) / 2 powi lb" by (simp add: power_int_diff)
    also have "\<dots> \<le> of_int a / 2 powi lb"
      using A(1) by (intro divide_right_mono) simp_all
    also have "\<dots> < of_int a / of_int b"
      using B(2) apos bpos by (intro divide_strict_left_mono) simp_all
    finally show ?thesis by (simp add: r)
  qed
  show ?thesis
    using up lo q by (simp add: floor_log2_def Let_def la_def lb_def)
qed

lemma floor_log2_eq:
  assumes "2 powi e \<le> r" "r < 2 powi (e + 1)"
  shows "floor_log2 r = e"
proof -
  have "(0::rat) < 2 powi e" by simp
  then have "0 < r" using assms(1) by linarith
  from floor_log2_bounds [OF this]
  have f: "2 powi (floor_log2 r) \<le> r" "r < 2 powi (floor_log2 r + 1)" by simp_all
  have "\<not> floor_log2 r + 1 \<le> e"
  proof
    assume "floor_log2 r + 1 \<le> e"
    then have "(2::rat) powi (floor_log2 r + 1) \<le> 2 powi e" by (intro power_int_increasing) simp_all
    then show False using f(2) assms(1) by linarith
  qed
  moreover have "\<not> e + 1 \<le> floor_log2 r"
  proof
    assume "e + 1 \<le> floor_log2 r"
    then have "(2::rat) powi (e + 1) \<le> 2 powi (floor_log2 r)" by (intro power_int_increasing) simp_all
    then show False using f(1) assms(2) by linarith
  qed
  ultimately show ?thesis by linarith
qed

lemma fl64_known_exponent:
  assumes "2 powi e \<le> r" "r < 2 powi (e + 1)" "- 1022 \<le> e"
  shows "fl64 r = of_int (round_half_even (r / 2 powi (e - 52))) * 2 powi (e - 52)"
proof -
  have "(0::rat) < 2 powi e" by simp
  then have r: "0 < r" using assms(1) by linarith
  then have "floor_log2 \<bar>r\<bar> = e" using floor_log2_eq [OF assms(1,2)] by simp
  then show ?thesis using r assms(3) by (simp add: fl64_def Let_def max_def)
qed

lemma fl64_quotient:
  fixes a b :: int and s :: nat
  assumes "0 < b" "s \<le> 1074" "2 ^ 52 * b \<le> a * 2 ^ s" "a * 2 ^ s < 2 ^ 53 * b"
  shows "fl64 (of_int a / of_int b) = of_int (rhe_int (a * 2 ^ s) b) / 2 ^ s"
proof -
  define e :: int where "e = 52 - int s"
  have bpos: "(0::rat) < of_int b" using assms(1) by simp
  have p: "(2::rat) powi (e - 52) = 1 / 2 ^ s"
    by (simp add: e_def power_int_minus_divide)
  have pe: "(2::rat) powi e = 2 ^ 52 / 2 ^ s"
    by (simp add: e_def power_int_diff)
  have pe1: "(2::rat) powi (e + 1) = 2 ^ 53 / 2 ^ s"
  proof -
    have "e + 1 = 53 - int s" by (simp add: e_def)
    then show ?thesis by (simp add: power_int_diff)
  qed
  have "(of_int (2 ^ 52 * b) :: rat) \<le> of_int (a * 2 ^ s)"
    using assms(3) by (simp only: of_int_le_iff)
  then have lo: "(2::rat) powi e \<le> of_int a / of_int b"
    using bpos by (simp add: pe field_simps)
  have "(of_int (a * 2 ^ s) :: rat) < of_int (2 ^ 53 * b)"
    using assms(4) by (simp only: of_int_less_iff)
  then have hi: "(of_int a / of_int b :: rat) < 2 powi (e + 1)"
    unfolding pe1 using bpos by (simp add: field_simps)
  have e: "- 1022 \<le> e" using assms(2) by (simp add: e_def)
  have "(of_int a / of_int b :: rat) / 2 powi (e - 52) = of_int (a * 2 ^ s) / of_int b"
    by (simp add: p)
  then show ?thesis
    using fl64_known_exponent [OF lo hi e] round_half_even_quotient [OF assms(1), of "a * 2 ^ s"]
    by (simp add: p)
qed

lemma rhe_int_unique:
  assumes "0 < b" "2 * \<bar>a - n * b\<bar> < b"
  shows "rhe_int a b = n"
proof (cases "n * b \<le> a")
  case True
  then have d: "a = b * n + (a - n * b)" "0 \<le> a - n * b" "a - n * b < b"
    using assms by simp_all
  have "a div b = n" "a mod b = a - n * b"
    using int_div_pos_eq [OF d] int_mod_pos_eq [OF d] by simp_all
  then show ?thesis using assms True by (simp add: rhe_int_def Let_def)
next
  case False
  then have d: "a = b * (n - 1) + (a - (n - 1) * b)" "0 \<le> a - (n - 1) * b" "a - (n - 1) * b < b"
    using assms by (simp_all add: algebra_simps)
  have "a div b = n - 1" "a mod b = a - (n - 1) * b"
    using int_div_pos_eq [OF d] int_mod_pos_eq [OF d] by simp_all
  then show ?thesis using assms False by (simp add: rhe_int_def Let_def algebra_simps)
qed

lemma rhe_int_error:
  assumes "0 < b"
  shows "2 * \<bar>b * rhe_int a b - a\<bar> \<le> b"
proof -
  have e: "b * (a div b) = a - a mod b" by (simp add: minus_mod_eq_mult_div)
  have m: "0 \<le> a mod b" "a mod b < b" using assms by simp_all
  show ?thesis
    unfolding rhe_int_def Let_def using m by (auto simp: distrib_left e)
qed


lemma midtone_alpha_scaled:
  fixes p :: int and s :: nat
  assumes s: "8 \<le> s" "s \<le> 1074" and p: "0 \<le> p"
    and r1: "2 ^ 52 * 255 \<le> p * 2 ^ s" "p * 2 ^ s < 2 ^ 53 * 255"
    and r2: "2 ^ 60 + 127 \<le> p * 2 ^ s" "p * 2 ^ s + 127 < 2 ^ 61"
  shows "midtone_alpha p = p"
proof -
  define P :: int where "P = 2 ^ s"
  define Q :: int where "Q = 2 ^ (s - 8)"
  define m1 where "m1 = rhe_int (p * P) 255"
  have Q: "0 < Q" by (simp add: Q_def)
  have "(2::int) ^ s = 2 ^ (8 + (s - 8))" using s(1) by simp
  then have PQ: "P = 256 * Q" unfolding P_def Q_def by (simp only: power_add) simp
  have x1: "fl64 (of_int p / 255) = of_int m1 / of_int P"
    using fl64_quotient [of 255 s p] s(2) r1 by (simp add: m1_def P_def)
  have "2 * \<bar>255 * m1 - p * P\<bar> \<le> 255"
    unfolding m1_def by (rule rhe_int_error) simp
  then have d: "\<bar>255 * m1 - p * P\<bar> \<le> 127" by arith
  have lo: "2 ^ 60 \<le> 255 * m1" and hi: "255 * m1 < 2 ^ 61"
    using d r2 by (simp_all add: P_def [symmetric])
  have c1: "2 ^ 52 * P \<le> (255 * m1) * Q"
  proof -
    have "2 ^ 60 * Q \<le> (255 * m1) * Q" using lo Q by (intro mult_right_mono) simp_all
    then show ?thesis by (simp add: PQ)
  qed
  have c2: "(255 * m1) * Q < 2 ^ 53 * P"
  proof -
    have "(255 * m1) * Q < 2 ^ 61 * Q" using hi Q by (intro mult_strict_right_mono) simp_all
    then show ?thesis by (simp add: PQ)
  qed
  have "2 * \<bar>(255 * m1) * Q - (p * Q) * P\<bar> = (2 * \<bar>255 * m1 - p * P\<bar>) * Q"
  proof -
    have "(255 * m1) * Q - (p * Q) * P = (255 * m1 - p * P) * Q" by (simp add: algebra_simps)
    then show ?thesis using Q by (simp add: abs_mult)
  qed
  also have "\<dots> \<le> 254 * Q" using d Q by (intro mult_right_mono) simp_all
  also have "\<dots> < P" using Q by (simp add: PQ)
  finally have u: "2 * \<bar>(255 * m1) * Q - (p * Q) * P\<bar> < P" .
  have P: "0 < P" by (simp add: P_def)
  have m2: "rhe_int ((255 * m1) * Q) P = p * Q"
    by (rule rhe_int_unique [OF P u])
  have "fl64 (of_int (255 * m1) / of_int P) = of_int (rhe_int ((255 * m1) * 2 ^ (s - 8)) P) / 2 ^ (s - 8)"
    using s(2) c1 c2 P by (intro fl64_quotient) (simp_all add: Q_def)
  then have "fl64 (of_int (255 * m1) / of_int P) = of_int (p * Q) / of_int Q"
    using m2 by (simp add: Q_def)
  then have "fl64 (255 * (of_int m1 / of_int P)) = of_int p"
    using Q by simp
  then show ?thesis
    using p by (simp add: midtone_alpha_def x1 py_int_def)
qed

lemma midtone_alpha_128: "midtone_alpha 128 = 128"
proof -
  have x1: "fl64 (128 / 255) = 4521260802379792 / 2 ^ 53"
    using fl64_quotient [of 255 53 128] by (simp add: rhe_int_def)
  have "fl64 (of_int 1152921504606846960 / of_int (2 ^ 53)) = 128"
    by (subst fl64_quotient [where s = 46]) (simp_all add: rhe_int_def)
  then have "fl64 (255 * (4521260802379792 / 2 ^ 53)) = 128" by simp
  then show ?thesis by (simp add: midtone_alpha_def x1 py_int_def)
qed

lemma midtone_alpha_mid_band:
  assumes "100 < p" "p \<le> 200"
  shows "midtone_alpha p = p"
proof -
  consider "p \<le> 127" | "p = 128" | "129 \<le> p" by linarith
  then show ?thesis
  proof cases
    case 1
    show ?thesis using assms 1 by (intro midtone_alpha_scaled [where s = 54]) simp_all
  next
    case 2
    then show ?thesis by (simp add: midtone_alpha_128)
  next
    case 3
    show ?thesis using assms 3 by (intro midtone_alpha_scaled [where s = 53]) simp_all
  qed
qed

lemma round_half_even_le:
  assumes "x \<le> of_int n"
  shows "round_half_even x \<le> n"
proof (cases "\<lfloor>x\<rfloor> < n")
  case True
  then show ?thesis by (simp add: round_half_even_def Let_def)
next
  case False
  have "\<lfloor>x\<rfloor> \<le> n" using assms by (simp add: floor_le_iff)
  then have "\<lfloor>x\<rfloor> = n" using False by simp
  moreover have "of_int \<lfloor>x\<rfloor> \<le> x" by simp
  ultimately have "x = of_int n" using assms by simp
  then show ?thesis by (simp add: round_half_even_def Let_def)
qed

lemma round_half_even_nonneg:
  assumes "0 \<le> x"
  shows "0 \<le> round_half_even x"
proof -
  have "0 \<le> \<lfloor>x\<rfloor>" using assms by simp
  then show ?thesis by (simp add: round_half_even_def Let_def)
qed

lemma fl64_byte_range:
  assumes "0 \<le> r" "r \<le> 255"
  shows "0 \<le> fl64 r \<and> fl64 r \<le> 255"
proof (cases "r = 0")
  case True
  then show ?thesis by (simp add: fl64_def)
next
  case False
  then have r: "0 < r" using assms(1) by simp
  define e where "e = max (floor_log2 \<bar>r\<bar>) (- 1022)"
  define q :: rat where "q = 2 powi (e - 52)"
  have q: "0 < q" by (simp add: q_def)
  have fl: "fl64 r = of_int (round_half_even (r / q)) * q"
    using False by (simp add: fl64_def Let_def e_def q_def)
  have "floor_log2 r < 8"
  proof (rule ccontr)
    assume "\<not> floor_log2 r < 8"
    then have "(2::rat) powi 8 \<le> 2 powi (floor_log2 r)" by (intro power_int_increasing) simp_all
    then show False using floor_log2_bounds [OF r] assms(2) by simp
  qed
  then have e: "e \<le> 52" using r by (simp add: e_def)
  define N :: int where "N = 255 * 2 ^ nat (52 - e)"
  have "(2::rat) powi (e - 52) = 1 / 2 powi (52 - e)"
    using power_int_minus_divide [of "2::rat" "52 - e"] by simp
  also have "\<dots> = 1 / 2 ^ nat (52 - e)" using e by (simp add: power_int_nonneg_exp)
  finally have qN: "of_int N * q = 255" by (simp add: N_def q_def)
  then have "of_int N = 255 / q" using q by (simp add: field_simps)
  then have "r / q \<le> of_int N" using assms(2) q by (simp add: divide_right_mono)
  then have "round_half_even (r / q) \<le> N" by (rule round_half_even_le)
  then have "of_int (round_half_even (r / q)) * q \<le> of_int N * q"
    using q by (intro mult_right_mono) simp_all
  then have up: "fl64 r \<le> 255" by (simp add: fl qN)
  have "0 \<le> r / q" using assms(1) q by simp
  then have "0 \<le> round_half_even (r / q)" by (rule round_half_even_nonneg)
  then have "0 \<le> fl64 r" using q by (simp add: fl)
  then show ?thesis using up by simp
qed

lemma bg_alpha_of_unit_interval:
  assumes "0 \<le> bg_opacity" "bg_opacity \<le> 1"
  shows "\<exists>A. bg_alpha_of bg_opacity = Inr A \<and> 0 \<le> A \<and> A \<le> 255"
proof -
  have "0 \<le> 255 * bg_opacity" "255 * bg_opacity \<le> 255" using assms by simp_all
  from fl64_byte_range [OF this]
  have x: "0 \<le> fl64 (255 * bg_opacity)" "fl64 (255 * bg_opacity) \<le> 255" by simp_all
  have "(255::rat) < 2 ^ 1024" by simp
  then have "\<not> 2 ^ 1024 \<le> \<bar>fl64 (255 * bg_opacity)\<bar>" using x by linarith
  moreover have "\<lfloor>fl64 (255 * bg_opacity)\<rfloor> \<le> 255" using x(2) by (simp add: floor_le_iff)
  ultimately show ?thesis using x(1) by (simp add: bg_alpha_of_def Let_def py_int_def)
qed

lemma bg_alpha_of_half: "bg_alpha_of (1 / 2) = Inr 127"
proof -
  have "fl64 (of_int 255 / of_int 2) = 255 / 2"
    by (subst fl64_quotient [where s = 46]) (simp_all add: rhe_int_def)
  then have x: "fl64 (255 * (1 / 2)) = 255 / 2" by simp
  have "\<not> (2::rat) ^ 1024 \<le> \<bar>255 / 2\<bar>" by simp
  moreover have "\<lfloor>(255 / 2 :: rat)\<rfloor> = 127"
    using floor_divide_of_int_eq [of 255 2, where ?'a = rat] by simp
  then have "py_int (255 / 2) = 127" by (simp add: py_int_def)
  ultimately show ?thesis unfolding bg_alpha_of_def Let_def x by simp
qed

lemma round_half_even_of_int: "round_half_even (of_int n) = n"
  by (simp add: round_half_even_def)

lemma fl64_exact:
  fixes m :: int and k :: nat
  assumes "\<bar>m\<bar> < 2 ^ 53" "k \<le> 1074"
  shows "fl64 (of_int m / 2 ^ k) = of_int m / 2 ^ k"
proof (cases "m = 0")
  case True
  then show ?thesis by (simp add: fl64_def)
next
  case False
  define r :: rat where "r = of_int m / 2 ^ k"
  have r0: "r \<noteq> 0" using False by (simp add: r_def)
  then have rpos: "0 < \<bar>r\<bar>" by simp
  define e where "e = max (floor_log2 \<bar>r\<bar>) (- 1022)"
  have "(of_int \<bar>m\<bar> :: rat) < of_int (2 ^ 53)" using assms(1) by (simp only: of_int_less_iff)
  then have "\<bar>r\<bar> < 2 ^ 53 / 2 ^ k" by (simp add: r_def divide_strict_right_mono)
  also have "\<dots> = 2 powi (53 - int k)" by (simp add: power_int_diff)
  finally have up: "\<bar>r\<bar> < 2 powi (53 - int k)" .
  have "floor_log2 \<bar>r\<bar> < 53 - int k"
  proof (rule ccontr)
    assume "\<not> floor_log2 \<bar>r\<bar> < 53 - int k"
    then have "(2::rat) powi (53 - int k) \<le> 2 powi (floor_log2 \<bar>r\<bar>)"
      by (intro power_int_increasing) simp_all
    then show False using floor_log2_bounds [OF rpos] up by linarith
  qed
  then have e: "e \<le> 52 - int k" using assms(2) by (simp add: e_def)
  define j where "j = nat (52 - e - int k)"
  have j: "int j = 52 - e - int k" using e by (simp add: j_def)
  have "(2::rat) powi (e - 52) = 2 powi (- int k - int j)" using j by simp
  also have "\<dots> = 2 powi (- int k) / 2 powi (int j)" by (simp add: power_int_diff)
  also have "\<dots> = 1 / (2 ^ k * 2 ^ j)" by (simp add: power_int_minus_divide)
  finally have q: "(2::rat) powi (e - 52) = 1 / (2 ^ k * 2 ^ j)" .
  have "r / 2 powi (e - 52) = of_int (m * 2 ^ j)"
    by (simp add: q r_def)
  then have "round_half_even (r / 2 powi (e - 52)) = m * 2 ^ j"
    by (simp only: round_half_even_of_int)
  then have "fl64 r = of_int (m * 2 ^ j) * 2 powi (e - 52)"
    using r0 by (simp add: fl64_def Let_def e_def)
  also have "\<dots> = r" by (simp add: q r_def)
  finally show ?thesis by (simp add: r_def)
qed

lemma fl32_exact:
  fixes m :: int and k :: nat
  assumes "\<bar>m\<bar> < 2 ^ 24" "k \<le> 149"
  shows "fl32 (of_int m / 2 ^ k) = of_int m / 2 ^ k"
proof (cases "m = 0")
  case True
  then show ?thesis by (simp add: fl32_def)
next
  case False
  define r :: rat where "r = of_int m / 2 ^ k"
  have r0: "r \<noteq> 0" using False by (simp add: r_def)
  then have rpos: "0 < \<bar>r\<bar>" by simp
  define e where "e = max (floor_log2 \<bar>r\<bar>) (- 126)"
  have "(of_int \<bar>m\<bar> :: rat) < of_int (2 ^ 24)" using assms(1) by (simp only: of_int_less_iff)
  then have "\<bar>r\<bar> < 2 ^ 24 / 2 ^ k" by (simp add: r_def divide_strict_right_mono)
  also have "\<dots> = 2 powi (24 - int k)" by (simp add: power_int_diff)
  finally have up: "\<bar>r\<bar> < 2 powi (24 - int k)" .
  have "floor_log2 \<bar>r\<bar> < 24 - int k"
  proof (rule ccontr)
    assume "\<not> floor_log2 \<bar>r\<bar> < 24 - int k"
    then have "(2::rat) powi (24 - int k) \<le> 2 powi (floor_log2 \<bar>r\<bar>)"
      by (intro power_int_increasing) simp_all
    then show False using floor_log2_bounds [OF rpos] up by linarith
  qed
  then have e: "e \<le> 23 - int k" using assms(2) by (simp add: e_def)
  define j where "j = nat (23 - e - int k)"
  have j: "int j = 23 - e - int k" using e by (simp add: j_def)
  have "(2::rat) powi (e - 23) = 2 powi (- int k - int j)" using j by simp
  also have "\<dots> = 2 powi (- int k) / 2 powi (int j)" by (simp add: power_int_diff)
  also have "\<dots> = 1 / (2 ^ k * 2 ^ j)" by (simp add: power_int_minus_divide)
  finally have q: "(2::rat) powi (e - 23) = 1 / (2 ^ k * 2 ^ j)" .
  have "r / 2 powi (e - 23) = of_int (m * 2 ^ j)"
    by (simp add: q r_def)
  then have "round_half_even (r / 2 powi (e - 23)) = m * 2 ^ j"
    by (simp only: round_half_even_of_int)
  then have "fl32 r = of_int (m * 2 ^ j) * 2 powi (e - 23)"
    using r0 by (simp add: fl32_def Let_def e_def)
  also have "\<dots> = r" by (simp add: q r_def)
  finally show ?thesis by (simp add: r_def)
qed

lemma fl32_of_int:
  assumes "\<bar>m\<bar> < 2 ^ 24"
  shows "fl32 (of_int m) = of_int m"
  using fl32_exact [OF assms, of 0] by simp

lemma py_int_of_int: "py_int (of_int n) = n"
  by (simp add: py_int_def)

lemma blend_factor_2:
  assumes "0 \<le> v1" "v1 \<le> 255" "0 \<le> v2" "v2 \<le> 255"
  shows "blend v1 v2 2
           = (if 2 * v2 - v1 \<le> 0 then 0 else if 255 \<le> 2 * v2 - v1 then 255 else 2 * v2 - v1)"
proof -
  have a: "fl32 2 = 2" using fl32_of_int [of 2] by simp
  have "\<bar>2 * (v2 - v1)\<bar> < 2 ^ 24" using assms by simp
  from fl32_of_int [OF this]
  have p: "fl32 (2 * of_int (v2 - v1)) = of_int (2 * (v2 - v1))" by simp
  have "\<bar>2 * v2 - v1\<bar> < 2 ^ 24" using assms by simp
  from fl32_of_int [OF this]
  have t: "fl32 (of_int v1 + of_int (2 * (v2 - v1))) = of_int (2 * v2 - v1)"
    by (simp add: algebra_simps)
  have le: "(of_int (2 * v2 - v1) :: rat) \<le> 0 \<longleftrightarrow> 2 * v2 - v1 \<le> 0"
    using of_int_le_iff [of "2 * v2 - v1" 0, where ?'a = rat] by simp
  have ge: "(255 :: rat) \<le> of_int (2 * v2 - v1) \<longleftrightarrow> 255 \<le> 2 * v2 - v1"
    using of_int_le_iff [of 255 "2 * v2 - v1", where ?'a = rat] by simp
  show ?thesis
    unfolding blend_def Let_def a p t le ge py_int_of_int by simp
qed

section \<open>The recolor loops as maps over the pixels\<close>

lemma Image_new_fields:
  "width (Image_new (size_of g) fill) = width g"
  "height (Image_new (size_of g) fill) = height g"
  "wf_image (Image_new (size_of g) fill)"
  by (simp_all add: Image_new_def size_of_def wf_image_def)

lemma soft_edge_loop_is_pixel_loop:
  "soft_edge_loop src bg_alpha dst0 = pixel_loop (three_tone bg_alpha) src dst0"
proof -
  have "(\<lambda>x processed. case getpixel src (x, y) of
           Inl e \<Rightarrow> Inl e
         | Inr pixel \<Rightarrow>
             if pixel > 200 then putpixel processed (x, y) (255, 255, 255, 255)
             else if pixel > 100 then
               (let alpha = midtone_alpha pixel
                in putpixel processed (x, y) (255, 255, 255, alpha))
             else putpixel processed (x, y) (0, 0, 0, bg_alpha))
        = (\<lambda>x dst. case getpixel src (x, y) of
           Inl e \<Rightarrow> Inl e
         | Inr pixel \<Rightarrow> putpixel dst (x, y) (three_tone bg_alpha pixel))" for y
    by (intro ext) (simp add: three_tone_def split: sum.splits)
  then show ?thesis
    by (simp add: soft_edge_loop_def pixel_loop_def)
qed

lemma threshold_loop_map:
  assumes "wf_image g"
  shows "threshold_loop g T A (Image_new (size_of g) fill)
           = Inr \<lparr>width = width g, height = height g, pixels = map (two_tone T A) (pixels g)\<rparr>"
  unfolding threshold_loop_is_pixel_loop
  by (rule pixel_loop_closed_form [OF assms Image_new_fields(3) Image_new_fields(1,2)])

lemma soft_edge_loop_map:
  assumes "wf_image g"
  shows "soft_edge_loop g A (Image_new (size_of g) fill)
           = Inr \<lparr>width = width g, height = height g, pixels = map (three_tone A) (pixels g)\<rparr>"
  unfolding soft_edge_loop_is_pixel_loop
  by (rule pixel_loop_closed_form [OF assms Image_new_fields(3) Image_new_fields(1,2)])

lemma getpixel_in_range:
  assumes "wf_image g" "x < width g" "y < height g"
  shows "getpixel g (x, y) = Inr (pixels g ! (y * width g + x))"
    and "getpixel \<lparr>width = width g, height = height g, pixels = map f (pixels g)\<rparr> (x, y)
           = Inr (f (pixels g ! (y * width g + x)))"
proof -
  have "y * width g + x < length (pixels g)"
    using index_in_grid [OF assms(2,3)] assms(1) by (simp add: wf_image_def)
  then show "getpixel \<lparr>width = width g, height = height g, pixels = map f (pixels g)\<rparr> (x, y)
               = Inr (f (pixels g ! (y * width g + x)))"
    using assms(2,3) by (simp add: getpixel_def)
  show "getpixel g (x, y) = Inr (pixels g ! (y * width g + x))"
    using assms(2,3) by (simp add: getpixel_def)
qed

section \<open>Claims about the recolor\<close>

text \<open>
  C1. Threshold recolor contract: for every grayscale grid, threshold \<open>T\<close> and background
  alpha \<open>A\<close>, the loop returns an image in which every pixel of intensity \<open>I > T\<close> is
  \<open>(255, 255, 255, 255)\<close> and every pixel of intensity \<open>I \<le> T\<close> is \<open>(0, 0, 0, A)\<close>; the
  comparison is strict, so \<open>I = T\<close> takes the second branch. The loop of poemtok\_final.py
  is the instance \<open>T = 200\<close>.
\<close>

theorem threshold_recolor_contract:
  assumes "wf_image g"
  shows "\<exists>out. threshold_loop g T A (Image_new (size_of g) (0, 0, 0, 0)) = Inr out \<and>
           (\<forall>x < width g. \<forall>y < height g. \<exists>I. getpixel g (x, y) = Inr I \<and>
              (T < I \<longrightarrow> getpixel out (x, y) = Inr (255, 255, 255, 255)) \<and>
              (I \<le> T \<longrightarrow> getpixel out (x, y) = Inr (0, 0, 0, A)) \<and>
              (I = T \<longrightarrow> getpixel out (x, y) = Inr (0, 0, 0, A)))"
proof -
  let ?out = "\<lparr>width = width g, height = height g, pixels = map (two_tone T A) (pixels g)\<rparr>"
  have "\<exists>I. getpixel g (x, y) = Inr I \<and>
              (T < I \<longrightarrow> getpixel ?out (x, y) = Inr (255, 255, 255, 255)) \<and>
              (I \<le> T \<longrightarrow> getpixel ?out (x, y) = Inr (0, 0, 0, A)) \<and>
              (I = T \<longrightarrow> getpixel ?out (x, y) = Inr (0, 0, 0, A))"
    if "x < width g" "y < height g" for x y
    by (simp add: getpixel_in_range [OF assms that] two_tone_def)
  then show ?thesis
    using threshold_loop_map [OF assms] by simp
qed

theorem threshold_recolor_contract_witness:
  "wf_image \<lparr>width = 3, height = 1, pixels = [150, 200, 201 :: int]\<rparr> \<and>
   (\<exists>out. threshold_loop \<lparr>width = 3, height = 1, pixels = [150, 200, 201]\<rparr> 200 178
             (Image_new (3, 1) (0, 0, 0, 0)) = Inr out \<and>
      getpixel out (0, 0) = Inr (0, 0, 0, 178) \<and>
      getpixel out (1, 0) = Inr (0, 0, 0, 178) \<and>
      getpixel out (2, 0) = Inr (255, 255, 255, 255))"
proof -
  let ?g = "\<lparr>width = 3, height = 1, pixels = [150, 200, 201 :: int]\<rparr>"
  have wf: "wf_image ?g" by (simp add: wf_image_def)
  from threshold_recolor_contract [OF wf, of 200 178]
  obtain out where out: "threshold_loop ?g 200 178 (Image_new (size_of ?g) (0, 0, 0, 0)) = Inr out"
    and px: "\<forall>x < width ?g. \<forall>y < height ?g. \<exists>I. getpixel ?g (x, y) = Inr I \<and>
              (200 < I \<longrightarrow> getpixel out (x, y) = Inr (255, 255, 255, 255)) \<and>
              (I \<le> 200 \<longrightarrow> getpixel out (x, y) = Inr (0, 0, 0, 178)) \<and>
              (I = 200 \<longrightarrow> getpixel out (x, y) = Inr (0, 0, 0, 178))"
    by blast
  have "getpixel out (0, 0) = Inr (0, 0, 0, 178)"
    using px [rule_format, of 0 0] by (simp add: getpixel_def)
  moreover have "getpixel out (1, 0) = Inr (0, 0, 0, 178)"
    using px [rule_format, of 1 0] by (simp add: getpixel_def)
  moreover have "getpixel out (2, 0) = Inr (255, 255, 255, 255)"
    using px [rule_format, of 2 0] by (simp add: getpixel_def)
  ultimately show ?thesis
    using wf out by (simp add: size_of_def)
qed

text \<open>
  C2. Three-band variant (poemtok\_screenshot.py): a pixel of intensity \<open>I > 200\<close> becomes
  opaque white, a pixel in the mid band \<open>100 < I \<le> 200\<close> becomes white with alpha
  \<open>int(255 * (I / 255.0))\<close>, which is \<open>I\<close> itself in binary64 arithmetic for every such
  \<open>I\<close>, and a pixel with \<open>I \<le> 100\<close> becomes \<open>(0, 0, 0, A)\<close>.
\<close>

theorem three_band_recolor:
  assumes "wf_image g"
  shows "\<exists>out. soft_edge_loop g A (Image_new (size_of g) (0, 0, 0, 0)) = Inr out \<and>
           (\<forall>x < width g. \<forall>y < height g. \<exists>I. getpixel g (x, y) = Inr I \<and>
              (200 < I \<longrightarrow> getpixel out (x, y) = Inr (255, 255, 255, 255)) \<and>
              (100 < I \<and> I \<le> 200 \<longrightarrow> getpixel out (x, y) = Inr (255, 255, 255, I)) \<and>
              (I \<le> 100 \<longrightarrow> getpixel out (x, y) = Inr (0, 0, 0, A)))"
proof -
  let ?out = "\<lparr>width = width g, height = height g, pixels = map (three_tone A) (pixels g)\<rparr>"
  have "\<exists>I. getpixel g (x, y) = Inr I \<and>
              (200 < I \<longrightarrow> getpixel ?out (x, y) = Inr (255, 255, 255, 255)) \<and>
              (100 < I \<and> I \<le> 200 \<longrightarrow> getpixel ?out (x, y) = Inr (255, 255, 255, I)) \<and>
              (I \<le> 100 \<longrightarrow> getpixel ?out (x, y) = Inr (0, 0, 0, A))"
    if "x < width g" "y < height g" for x y
    by (simp add: getpixel_in_range [OF assms that] three_tone_def midtone_alpha_mid_band)
  then show ?thesis
    using soft_edge_loop_map [OF assms] by simp
qed

theorem three_band_recolor_witness:
  "wf_image \<lparr>width = 2, height = 2, pixels = [100, 101, 200, 201 :: int]\<rparr> \<and>
   (\<exists>out. soft_edge_loop \<lparr>width = 2, height = 2, pixels = [100, 101, 200, 201]\<rparr> 204
             (Image_new (2, 2) (0, 0, 0, 0)) = Inr out \<and>
      getpixel out (0, 0) = Inr (0, 0, 0, 204) \<and>
      getpixel out (1, 0) = Inr (255, 255, 255, 101) \<and>
      getpixel out (0, 1) = Inr (255, 255, 255, 200) \<and>
      getpixel out (1, 1) = Inr (255, 255, 255, 255))"
proof -
  let ?g = "\<lparr>width = 2, height = 2, pixels = [100, 101, 200, 201 :: int]\<rparr>"
  have wf: "wf_image ?g" by (simp add: wf_image_def)
  from three_band_recolor [OF wf, of 204]
  obtain out where out: "soft_edge_loop ?g 204 (Image_new (size_of ?g) (0, 0, 0, 0)) = Inr out"
    and px: "\<forall>x < width ?g. \<forall>y < height ?g. \<exists>I. getpixel ?g (x, y) = Inr I \<and>
              (200 < I \<longrightarrow> getpixel out (x, y) = Inr (255, 255, 255, 255)) \<and>
              (100 < I \<and> I \<le> 200 \<longrightarrow> getpixel out (x, y) = Inr (255, 255, 255, I)) \<and>
              (I \<le> 100 \<longrightarrow> getpixel out (x, y) = Inr (0, 0, 0, 204))"
    by blast
  have "getpixel out (0, 0) = Inr (0, 0, 0, 204)"
    using px [rule_format, of 0 0] by (simp add: getpixel_def)
  moreover have "getpixel out (1, 0) = Inr (255, 255, 255, 101)"
    using px [rule_format, of 1 0] by (simp add: getpixel_def)
  moreover have "getpixel out (0, 1) = Inr (255, 255, 255, 200)"
    using px [rule_format, of 0 1] by (simp add: getpixel_def)
  moreover have "getpixel out (1, 1) = Inr (255, 255, 255, 255)"
    using px [rule_format, of 1 1] by (simp add: getpixel_def)
  ultimately show ?thesis
    using wf out by (simp add: size_of_def)
qed

lemma final_overlay_map:
  assumes "wf_image g" "0 \<le> bg_opacity" "bg_opacity \<le> 1"
  shows "\<exists>A. bg_alpha_of bg_opacity = Inr A \<and> 0 \<le> A \<and> A \<le> 255 \<and>
           final_overlay g bg_opacity
             = Inr \<lparr>width = width g, height = height g, pixels = map (two_tone 200 A) (pixels g)\<rparr>"
proof -
  from bg_alpha_of_unit_interval [OF assms(2,3)]
  obtain A where A: "bg_alpha_of bg_opacity = Inr A" "0 \<le> A" "A \<le> 255" by blast
  then show ?thesis
    using threshold_loop_map [OF assms(1)] by (simp add: final_overlay_def)
qed

text \<open>
  C5. The recolor is total: for every grid of \<open>w \<times> h\<close> pixels, every threshold and every
  background alpha the loop returns (no exception) an RGBA grid of the same \<open>w \<times> h\<close>
  dimensions; the recolor step of poemtok\_final.py (lines 44 to 57) does so for every
  background opacity between 0 and 1. The functions are total by construction, so they
  terminate. The 8-bit ranges of the claim are not needed.
\<close>

theorem recolor_total:
  assumes "wf_image g"
  shows "(\<exists>out. threshold_loop g T A (Image_new (size_of g) (0, 0, 0, 0)) = Inr out \<and>
            width out = width g \<and> height out = height g \<and>
            length (pixels out) = height g * width g) \<and>
         (0 \<le> bg_opacity \<and> bg_opacity \<le> 1 \<longrightarrow>
            (\<exists>out. final_overlay g bg_opacity = Inr out \<and>
               width out = width g \<and> height out = height g \<and>
               length (pixels out) = height g * width g))"
proof -
  have len: "length (pixels g) = height g * width g"
    using assms by (simp add: wf_image_def)
  have "\<exists>out. final_overlay g bg_opacity = Inr out \<and>
               width out = width g \<and> height out = height g \<and>
               length (pixels out) = height g * width g"
    if "0 \<le> bg_opacity" "bg_opacity \<le> 1"
    using final_overlay_map [OF assms that] len by auto
  then show ?thesis
    using threshold_loop_map [OF assms, of T A] len by simp
qed

theorem recolor_total_witness:
  "wf_image \<lparr>width = 2, height = 3, pixels = [0, 255, 17, 200, 201, 90 :: int]\<rparr> \<and>
   (\<exists>out. threshold_loop \<lparr>width = 2, height = 3, pixels = [0, 255, 17, 200, 201, 90]\<rparr> 180 255
             (Image_new (2, 3) (0, 0, 0, 0)) = Inr out \<and>
      width out = 2 \<and> height out = 3 \<and> length (pixels out) = 6) \<and>
   (\<exists>out. final_overlay \<lparr>width = 2, height = 3, pixels = [0, 255, 17, 200, 201, 90]\<rparr> (1 / 2)
             = Inr out \<and>
      width out = 2 \<and> height out = 3 \<and> length (pixels out) = 6)"
proof -
  let ?g = "\<lparr>width = 2, height = 3, pixels = [0, 255, 17, 200, 201, 90 :: int]\<rparr>"
  have wf: "wf_image ?g" by (simp add: wf_image_def)
  show ?thesis
    using wf recolor_total [OF wf, of 180 255 "1 / 2"] by (simp add: size_of_def)
qed

lemma overlays_map:
  assumes "wf_image g" "bg_alpha_of bg_opacity = Inr A"
  shows "final_overlay g bg_opacity
           = Inr \<lparr>width = width g, height = height g, pixels = map (two_tone 200 A) (pixels g)\<rparr>"
    and "image_overlay g bg_opacity
           = Inr \<lparr>width = width g, height = height g, pixels = map (two_tone 200 A) (pixels g)\<rparr>"
    and "styled_text_overlay g bg_opacity T
           = Inr \<lparr>width = width g, height = height g, pixels = map (two_tone T A) (pixels g)\<rparr>"
    and "screenshot_overlay g bg_opacity
           = Inr \<lparr>width = width g, height = height g, pixels = map (three_tone A) (pixels g)\<rparr>"
  using assms(2) threshold_loop_map [OF assms(1)] soft_edge_loop_map [OF assms(1)]
  by (simp_all add: final_overlay_def image_overlay_def styled_text_overlay_def
        screenshot_overlay_def)

lemma bg_alpha_of_value:
  assumes "bg_alpha_of bg_opacity = Inr A"
  shows "A = py_int (fl64 (255 * bg_opacity))"
  using assms by (simp add: bg_alpha_of_def Let_def split: if_splits)

text \<open>
  C10. Two-tone output: for every grid and every background opacity between 0 and 1, with
  \<open>A = int(255 * bg_opacity)\<close>, every pixel of the overlay of poemtok\_final.py and
  poemtok\_image.py is \<open>(255, 255, 255, 255)\<close> or \<open>(0, 0, 0, A)\<close>; every pixel of the overlay
  of poemtok\_screenshot.py is one of these or, for a source intensity \<open>I\<close> in the mid
  band, \<open>(255, 255, 255, I)\<close>. The initial fill of the new image never survives: the
  loops give the same result whatever the fill was, so every coordinate is overwritten.
\<close>

theorem two_tone_output:
  assumes "wf_image g" "0 \<le> bg_opacity" "bg_opacity \<le> 1"
  shows "\<exists>A out1 out2.
           bg_alpha_of bg_opacity = Inr A \<and> A = py_int (fl64 (255 * bg_opacity)) \<and>
           0 \<le> A \<and> A \<le> 255 \<and>
           final_overlay g bg_opacity = Inr out1 \<and> image_overlay g bg_opacity = Inr out1 \<and>
           screenshot_overlay g bg_opacity = Inr out2 \<and>
           (\<forall>x < width g. \<forall>y < height g. \<exists>I. getpixel g (x, y) = Inr I \<and>
              (getpixel out1 (x, y) = Inr (255, 255, 255, 255) \<or>
               getpixel out1 (x, y) = Inr (0, 0, 0, A)) \<and>
              (getpixel out2 (x, y) = Inr (255, 255, 255, 255) \<or>
               100 < I \<and> I \<le> 200 \<and> getpixel out2 (x, y) = Inr (255, 255, 255, I) \<or>
               getpixel out2 (x, y) = Inr (0, 0, 0, A))) \<and>
           (\<forall>fill. threshold_loop g 200 A (Image_new (size_of g) fill) = Inr out1 \<and>
                   soft_edge_loop g A (Image_new (size_of g) fill) = Inr out2)"
proof -
  from bg_alpha_of_unit_interval [OF assms(2,3)]
  obtain A where A: "bg_alpha_of bg_opacity = Inr A" "0 \<le> A" "A \<le> 255" by blast
  let ?out1 = "\<lparr>width = width g, height = height g, pixels = map (two_tone 200 A) (pixels g)\<rparr>"
  let ?out2 = "\<lparr>width = width g, height = height g, pixels = map (three_tone A) (pixels g)\<rparr>"
  have px: "\<exists>I. getpixel g (x, y) = Inr I \<and>
              (getpixel ?out1 (x, y) = Inr (255, 255, 255, 255) \<or>
               getpixel ?out1 (x, y) = Inr (0, 0, 0, A)) \<and>
              (getpixel ?out2 (x, y) = Inr (255, 255, 255, 255) \<or>
               100 < I \<and> I \<le> 200 \<and> getpixel ?out2 (x, y) = Inr (255, 255, 255, I) \<or>
               getpixel ?out2 (x, y) = Inr (0, 0, 0, A))"
    if "x < width g" "y < height g" for x y
    by (simp add: getpixel_in_range [OF assms(1) that] two_tone_def three_tone_def
          midtone_alpha_mid_band)
  have fill: "threshold_loop g 200 A (Image_new (size_of g) fill) = Inr ?out1 \<and>
              soft_edge_loop g A (Image_new (size_of g) fill) = Inr ?out2" for fill
    using threshold_loop_map [OF assms(1)] soft_edge_loop_map [OF assms(1)] by simp
  have "bg_alpha_of bg_opacity = Inr A \<and> A = py_int (fl64 (255 * bg_opacity)) \<and>
        0 \<le> A \<and> A \<le> 255 \<and>
        final_overlay g bg_opacity = Inr ?out1 \<and> image_overlay g bg_opacity = Inr ?out1 \<and>
        screenshot_overlay g bg_opacity = Inr ?out2"
    using A bg_alpha_of_value [OF A(1)] overlays_map [OF assms(1) A(1)] by simp
  then show ?thesis using px fill by blast
qed

theorem two_tone_output_witness:
  "wf_image \<lparr>width = 2, height = 1, pixels = [150, 30 :: int]\<rparr> \<and> (0 :: rat) \<le> 1 / 2 \<and>
   (1 / 2 :: rat) \<le> 1 \<and>
   (\<exists>out1 out2.
      final_overlay \<lparr>width = 2, height = 1, pixels = [150, 30]\<rparr> (1 / 2) = Inr out1 \<and>
      screenshot_overlay \<lparr>width = 2, height = 1, pixels = [150, 30]\<rparr> (1 / 2) = Inr out2 \<and>
      (getpixel out1 (0, 0) = Inr (255, 255, 255, 255) \<or>
       getpixel out1 (0, 0) = Inr (0, 0, 0, 127)) \<and>
      getpixel out2 (0, 0) = Inr (255, 255, 255, 150) \<and>
      getpixel out2 (1, 0) = Inr (0, 0, 0, 127))"
proof -
  let ?g = "\<lparr>width = 2, height = 1, pixels = [150, 30 :: int]\<rparr>"
  have wf: "wf_image ?g" by (simp add: wf_image_def)
  from two_tone_output [OF wf, of "1 / 2"]
  obtain A out1 out2 where A: "bg_alpha_of (1 / 2) = Inr A"
    and o1: "final_overlay ?g (1 / 2) = Inr out1"
    and o2: "screenshot_overlay ?g (1 / 2) = Inr out2"
    and px: "\<forall>x < width ?g. \<forall>y < height ?g. \<exists>I. getpixel ?g (x, y) = Inr I \<and>
              (getpixel out1 (x, y) = Inr (255, 255, 255, 255) \<or>
               getpixel out1 (x, y) = Inr (0, 0, 0, A)) \<and>
              (getpixel out2 (x, y) = Inr (255, 255, 255, 255) \<or>
               100 < I \<and> I \<le> 200 \<and> getpixel out2 (x, y) = Inr (255, 255, 255, I) \<or>
               getpixel out2 (x, y) = Inr (0, 0, 0, A))"
    by auto
  have A127: "A = 127" using A by (simp add: bg_alpha_of_half)
  have s: "screenshot_overlay ?g (1 / 2)
             = Inr \<lparr>width = 2, height = 1, pixels = map (three_tone 127) [150, 30]\<rparr>"
    using overlays_map(4) [OF wf bg_alpha_of_half] by simp
  have "getpixel out1 (0, 0) = Inr (255, 255, 255, 255) \<or>
        getpixel out1 (0, 0) = Inr (0, 0, 0, 127)"
    using px [rule_format, of 0 0] A127 by auto
  moreover have "getpixel out2 (0, 0) = Inr (255, 255, 255, 150)"
    using s o2 by (auto simp: three_tone_def getpixel_def midtone_alpha_mid_band)
  moreover have "getpixel out2 (1, 0) = Inr (0, 0, 0, 127)"
    using s o2 by (auto simp: three_tone_def getpixel_def)
  ultimately show ?thesis using wf o1 o2 by simp
qed

text \<open>
  C3, as far as it holds. The threshold loop is idempotent on the luma of its own output:
  recolor a grid of 8-bit intensities with threshold \<open>T\<close> and background alpha \<open>A\<close>, read
  the result back as a grayscale image (white has luma 255, black has luma 0 whatever its
  alpha) and run the loop on it again with the same \<open>T\<close> and \<open>A\<close>: the result is the same
  image. This is a statement about the loop; a second pass of a script's whole
  \<open>process_image\<close> is another matter (see the example after the theorem).
\<close>

theorem recolor_idempotent:
  assumes "wf_image g" "\<forall>I \<in> set (pixels g). 0 \<le> I \<and> I \<le> 255"
  shows "\<exists>out. threshold_loop g T A (Image_new (size_of g) (0, 0, 0, 0)) = Inr out \<and>
           threshold_loop (convert_L out) T A (Image_new (size_of (convert_L out)) (0, 0, 0, 0))
             = Inr out"
proof -
  let ?out = "\<lparr>width = width g, height = height g, pixels = map (two_tone T A) (pixels g)\<rparr>"
  have wf: "wf_image (convert_L ?out)"
    using assms(1) by (simp add: wf_image_def convert_L_def)
  have again: "two_tone T A ((\<lambda>(r, g, b, a). (19595 * r + 38470 * g + 7471 * b + 32768) div 65536)
                 (two_tone T A I)) = two_tone T A I"
    if "I \<in> set (pixels g)" for I
    using assms(2) that by (auto simp: two_tone_def)
  have "threshold_loop (convert_L ?out) T A (Image_new (size_of (convert_L ?out)) (0, 0, 0, 0))
          = Inr \<lparr>width = width g, height = height g,
                 pixels = map (two_tone T A) (pixels (convert_L ?out))\<rparr>"
    using threshold_loop_map [OF wf, of T A "(0, 0, 0, 0)"] by (simp add: convert_L_def)
  also have "map (two_tone T A) (pixels (convert_L ?out)) = map (two_tone T A) (pixels g)"
    using again by (simp add: convert_L_def)
  finally show ?thesis
    using threshold_loop_map [OF assms(1), of T A "(0, 0, 0, 0)"] by simp
qed

theorem recolor_idempotent_witness:
  "wf_image \<lparr>width = 2, height = 2, pixels = [0, 180, 181, 255 :: int]\<rparr> \<and>
   (\<exists>out. threshold_loop \<lparr>width = 2, height = 2, pixels = [0, 180, 181, 255]\<rparr> 180 178
             (Image_new (2, 2) (0, 0, 0, 0)) = Inr out \<and>
      threshold_loop (convert_L out) 180 178 (Image_new (size_of (convert_L out)) (0, 0, 0, 0))
        = Inr out)"
proof -
  let ?g = "\<lparr>width = 2, height = 2, pixels = [0, 180, 181, 255 :: int]\<rparr>"
  have wf: "wf_image ?g" by (simp add: wf_image_def)
  have px: "\<forall>I \<in> set (pixels ?g). 0 \<le> I \<and> I \<le> 255" by simp
  show ?thesis
    using wf recolor_idempotent [OF wf px, of 180 178] by (simp add: size_of_def)
qed

text \<open>
  The example for C3: \<open>process_image\<close> of poemtok\_final.py inverts the picture before the
  loop (line 38; poemtok\_image.py does so by default, lines 121 and 122). The picture
  105, 225 is recolored to white, black. Given that result, the second pass reads the luma
  255, 0, inverts it to 0, 255; the mean is 128, the contrast step keeps 0 and 255, and the
  loop returns black, white: the negative of the first result.
\<close>

theorem second_pass_gives_negative:
  "process_image \<lparr>width = 2, height = 1, pixels = [105, 225]\<rparr> (1 / 2) 2
     = Inr \<lparr>width = 2, height = 1, pixels = [(255, 255, 255, 255), (0, 0, 0, 127)]\<rparr> \<and>
   process_image
       (convert_L \<lparr>width = 2, height = 1, pixels = [(255, 255, 255, 255), (0, 0, 0, 127)]\<rparr>)
       (1 / 2) 2
     = Inr \<lparr>width = 2, height = 1, pixels = [(0, 0, 0, 127), (255, 255, 255, 255)]\<rparr>"
proof -
  have m: "fl64 90 = 90" "fl64 128 = 128"
    using fl64_exact [of 90 0] fl64_exact [of 128 0] by simp_all
  have h: "fl64 (181 / 2) = 181 / 2" "fl64 (255 / 2) = 255 / 2"
    using fl64_exact [of 181 1] fl64_exact [of 255 1] by simp_all
  have f: "\<lfloor>(181 / 2 :: rat)\<rfloor> = 90"
    using floor_divide_of_int_eq [of 181 2, where ?'a = rat] by simp
  have c1: "Contrast_enhance \<lparr>width = 2, height = 1, pixels = [150, 30]\<rparr> 2
              = Inr \<lparr>width = 2, height = 1, pixels = [210, 0]\<rparr>"
    by (simp add: Contrast_enhance_def Stat_mean_def m h f py_int_def blend_factor_2 Let_def)
  have c2: "Contrast_enhance \<lparr>width = 2, height = 1, pixels = [0, 255]\<rparr> 2
              = Inr \<lparr>width = 2, height = 1, pixels = [0, 255]\<rparr>"
    by (simp add: Contrast_enhance_def Stat_mean_def m h py_int_def blend_factor_2 Let_def)
  have wf: "wf_image \<lparr>width = 2, height = 1, pixels = [210, 0 :: int]\<rparr>"
    "wf_image \<lparr>width = 2, height = 1, pixels = [0, 255 :: int]\<rparr>"
    by (simp_all add: wf_image_def)
  have o1: "final_overlay \<lparr>width = 2, height = 1, pixels = [210, 0]\<rparr> (1 / 2)
              = Inr \<lparr>width = 2, height = 1, pixels = [(255, 255, 255, 255), (0, 0, 0, 127)]\<rparr>"
    using overlays_map(1) [OF wf(1) bg_alpha_of_half] by (simp add: two_tone_def)
  have o2: "final_overlay \<lparr>width = 2, height = 1, pixels = [0, 255]\<rparr> (1 / 2)
              = Inr \<lparr>width = 2, height = 1, pixels = [(0, 0, 0, 127), (255, 255, 255, 255)]\<rparr>"
    using overlays_map(1) [OF wf(2) bg_alpha_of_half] by (simp add: two_tone_def)
  show ?thesis
    by (simp add: process_image_def ImageOps_invert_def convert_L_def c1 c2 o1 o2
          del: One_nat_def)
qed

text \<open>
  C4. Pixel independence. The recolor loops decide each output pixel from the pixel they
  read at the same coordinate: two grids of the same dimensions that agree at \<open>(x, y)\<close>
  give outputs that agree at \<open>(x, y)\<close>. This is a statement about the grid the loop reads.
  For the picture given to \<open>process_image\<close> it fails, because the contrast enhancement
  before the loop uses the mean of the whole picture (see the example after the theorem).
\<close>

theorem recolor_pixel_independent:
  assumes "wf_image g1" "wf_image g2" "width g1 = width g2" "height g1 = height g2"
    and "x < width g1" "y < height g1" "getpixel g1 (x, y) = getpixel g2 (x, y)"
  shows "(\<exists>out1 out2.
            threshold_loop g1 T A (Image_new (size_of g1) (0, 0, 0, 0)) = Inr out1 \<and>
            threshold_loop g2 T A (Image_new (size_of g2) (0, 0, 0, 0)) = Inr out2 \<and>
            getpixel out1 (x, y) = getpixel out2 (x, y)) \<and>
         (\<exists>out1 out2.
            soft_edge_loop g1 A (Image_new (size_of g1) (0, 0, 0, 0)) = Inr out1 \<and>
            soft_edge_loop g2 A (Image_new (size_of g2) (0, 0, 0, 0)) = Inr out2 \<and>
            getpixel out1 (x, y) = getpixel out2 (x, y))"
proof -
  have xy2: "x < width g2" "y < height g2" using assms by simp_all
  have same: "pixels g1 ! (y * width g1 + x) = pixels g2 ! (y * width g2 + x)"
    using assms(7) getpixel_in_range(1) [OF assms(1,5,6)] getpixel_in_range(1) [OF assms(2) xy2]
    by simp
  show ?thesis
    using same
    by (simp add: threshold_loop_map [OF assms(1)] threshold_loop_map [OF assms(2)]
          soft_edge_loop_map [OF assms(1)] soft_edge_loop_map [OF assms(2)]
          getpixel_in_range(2) [OF assms(1,5,6)] getpixel_in_range(2) [OF assms(2) xy2])
qed

theorem recolor_pixel_independent_witness:
  "wf_image \<lparr>width = 2, height = 1, pixels = [150, 50 :: int]\<rparr> \<and>
   wf_image \<lparr>width = 2, height = 1, pixels = [150, 30 :: int]\<rparr> \<and>
   getpixel \<lparr>width = 2, height = 1, pixels = [150, 50 :: int]\<rparr> (0, 0)
     = getpixel \<lparr>width = 2, height = 1, pixels = [150, 30]\<rparr> (0, 0) \<and>
   (\<exists>out1 out2.
      threshold_loop \<lparr>width = 2, height = 1, pixels = [150, 50]\<rparr> 200 127
        (Image_new (2, 1) (0, 0, 0, 0)) = Inr out1 \<and>
      threshold_loop \<lparr>width = 2, height = 1, pixels = [150, 30]\<rparr> 200 127
        (Image_new (2, 1) (0, 0, 0, 0)) = Inr out2 \<and>
      getpixel out1 (0, 0) = getpixel out2 (0, 0))"
proof -
  let ?g1 = "\<lparr>width = 2, height = 1, pixels = [150, 50 :: int]\<rparr>"
  let ?g2 = "\<lparr>width = 2, height = 1, pixels = [150, 30 :: int]\<rparr>"
  have wf: "wf_image ?g1" "wf_image ?g2" by (simp_all add: wf_image_def)
  have eq: "getpixel ?g1 (0, 0) = getpixel ?g2 (0, 0)" by (simp add: getpixel_def)
  have "\<exists>out1 out2.
      threshold_loop ?g1 200 127 (Image_new (size_of ?g1) (0, 0, 0, 0)) = Inr out1 \<and>
      threshold_loop ?g2 200 127 (Image_new (size_of ?g2) (0, 0, 0, 0)) = Inr out2 \<and>
      getpixel out1 (0, 0) = getpixel out2 (0, 0)"
    using recolor_pixel_independent [OF wf _ _ _ _ eq, of 200 127] by simp
  then show ?thesis
    using wf eq by (simp add: size_of_def)
qed

text \<open>
  The example for C4: two pictures of 2 by 1 pixels with the same value 105 at \<open>(0, 0)\<close>.
  \<open>process_image\<close> of poemtok\_final.py (contrast 2, background opacity 0.5) inverts them
  to 150, 50 and 150, 30; the means are 100 and 90, so the pixel at \<open>(0, 0)\<close> is enhanced to
  200 in the first picture and to 210 in the second, and only the second exceeds 200.
\<close>

theorem process_image_couples_pixels:
  "getpixel \<lparr>width = 2, height = 1, pixels = [105, 205 :: int]\<rparr> (0, 0)
     = getpixel \<lparr>width = 2, height = 1, pixels = [105, 225]\<rparr> (0, 0) \<and>
   process_image \<lparr>width = 2, height = 1, pixels = [105, 205]\<rparr> (1 / 2) 2
     = Inr \<lparr>width = 2, height = 1, pixels = [(0, 0, 0, 127), (0, 0, 0, 127)]\<rparr> \<and>
   process_image \<lparr>width = 2, height = 1, pixels = [105, 225]\<rparr> (1 / 2) 2
     = Inr \<lparr>width = 2, height = 1, pixels = [(255, 255, 255, 255), (0, 0, 0, 127)]\<rparr>"
proof -
  have m: "fl64 100 = 100" "fl64 90 = 90"
    using fl64_exact [of 100 0] fl64_exact [of 90 0] by simp_all
  have h: "fl64 (201 / 2) = 201 / 2" "fl64 (181 / 2) = 181 / 2"
    using fl64_exact [of 201 1] fl64_exact [of 181 1] by simp_all
  have f: "\<lfloor>(201 / 2 :: rat)\<rfloor> = 100" "\<lfloor>(181 / 2 :: rat)\<rfloor> = 90"
    using floor_divide_of_int_eq [of 201 2, where ?'a = rat]
      floor_divide_of_int_eq [of 181 2, where ?'a = rat] by simp_all
  have c1: "Contrast_enhance \<lparr>width = 2, height = 1, pixels = [150, 50]\<rparr> 2
              = Inr \<lparr>width = 2, height = 1, pixels = [200, 0]\<rparr>"
    by (simp add: Contrast_enhance_def Stat_mean_def m h f py_int_def blend_factor_2 Let_def)
  have c2: "Contrast_enhance \<lparr>width = 2, height = 1, pixels = [150, 30]\<rparr> 2
              = Inr \<lparr>width = 2, height = 1, pixels = [210, 0]\<rparr>"
    by (simp add: Contrast_enhance_def Stat_mean_def m h f py_int_def blend_factor_2 Let_def)
  have wf: "wf_image \<lparr>width = 2, height = 1, pixels = [200, 0 :: int]\<rparr>"
    "wf_image \<lparr>width = 2, height = 1, pixels = [210, 0 :: int]\<rparr>"
    by (simp_all add: wf_image_def)
  have o1: "final_overlay \<lparr>width = 2, height = 1, pixels = [200, 0]\<rparr> (1 / 2)
              = Inr \<lparr>width = 2, height = 1, pixels = [(0, 0, 0, 127), (0, 0, 0, 127)]\<rparr>"
    using overlays_map(1) [OF wf(1) bg_alpha_of_half] by (simp add: two_tone_def)
  have o2: "final_overlay \<lparr>width = 2, height = 1, pixels = [210, 0]\<rparr> (1 / 2)
              = Inr \<lparr>width = 2, height = 1, pixels = [(255, 255, 255, 255), (0, 0, 0, 127)]\<rparr>"
    using overlays_map(1) [OF wf(2) bg_alpha_of_half] by (simp add: two_tone_def)
  show ?thesis
    by (simp add: process_image_def ImageOps_invert_def c1 c2 o1 o2 getpixel_def
          del: One_nat_def)
qed

section \<open>Page ranges\<close>

lemma py_index_in_range:
  assumes "0 \<le> i" "i < int (length xs)"
  shows "py_index xs i = Inr (xs ! nat i)"
  using assms by (simp add: py_index_def)

lemma pages_loop:
  assumes "\<forall>i \<in> set is. 0 \<le> i \<and> i < int (length pages)"
    and "\<forall>page n. create_video page n = Inr ()"
  shows "for_each is (\<lambda>i output_videos.
            case py_index pages i of
              Inl e \<Rightarrow> Inl e
            | Inr page \<Rightarrow>
                (case create_video page (i + 1) of
                   Inl e \<Rightarrow> Inl e
                 | Inr _ \<Rightarrow> Inr (output_videos @ [i + 1])))
            acc
         = Inr (acc @ map (\<lambda>i. i + 1) is)"
  using assms(1)
proof (induction "is" arbitrary: acc)
  case Nil
  show ?case by simp
next
  case (Cons i rest)
  then show ?case
    using assms(2) by (simp add: py_index_in_range)
qed

text \<open>
  C6, as far as it holds. The range adjustment (poemtok.py lines 292 to 295, the same text
  in poemtok\_image.py lines 77 to 80): a start page below 1 becomes 1, an end page that is
  \<open>None\<close> or greater than the number \<open>N\<close> of pages becomes \<open>N\<close>, and every other value is
  kept as it is, also a start above \<open>N\<close> and an end below 1. So the adjusted start
  is at least 1 and the adjusted end at most \<open>N\<close>, and nothing more. Whatever the
  requested range, every index the loop of \<open>PoemTok.process\<close> visits is a valid index of
  the page list, so no range makes the loop fail: when the adjusted end is below the
  adjusted start the loop renders nothing and returns the empty list, and when rendering
  does not raise it returns the videos of exactly the pages from the adjusted start to the
  adjusted end.
\<close>

theorem page_range_clamping:
  "case adjust_page_range start_page end_page (length pages) of
     (s, e) \<Rightarrow>
       (start_page < 1 \<longrightarrow> s = 1) \<and> (1 \<le> start_page \<longrightarrow> s = start_page) \<and>
       (end_page = None \<longrightarrow> e = int (length pages)) \<and>
       (\<forall>v. end_page = Some v \<and> int (length pages) < v \<longrightarrow> e = int (length pages)) \<and>
       (\<forall>v. end_page = Some v \<and> v \<le> int (length pages) \<longrightarrow> e = v) \<and>
       1 \<le> s \<and> e \<le> int (length pages) \<and>
       (\<forall>i \<in> set (py_range (s - 1) e). 0 \<le> i \<and> i < int (length pages)) \<and>
       (e < s \<longrightarrow> PoemTok_process pages create_video start_page end_page = Inr []) \<and>
       ((\<forall>page n. create_video page n = Inr ()) \<longrightarrow>
          PoemTok_process pages create_video start_page end_page
            = Inr (map (\<lambda>i. i + 1) (py_range (s - 1) e)))"
proof -
  obtain s e where r: "adjust_page_range start_page end_page (length pages) = (s, e)"
    by (cases "adjust_page_range start_page end_page (length pages)")
  have clamp: "(start_page < 1 \<longrightarrow> s = 1) \<and> (1 \<le> start_page \<longrightarrow> s = start_page) \<and>
       (end_page = None \<longrightarrow> e = int (length pages)) \<and>
       (\<forall>v. end_page = Some v \<and> int (length pages) < v \<longrightarrow> e = int (length pages)) \<and>
       (\<forall>v. end_page = Some v \<and> v \<le> int (length pages) \<longrightarrow> e = v) \<and>
       1 \<le> s \<and> e \<le> int (length pages)"
    using r by (auto simp: adjust_page_range_def Let_def split: option.splits)
  then have idx: "\<forall>i \<in> set (py_range (s - 1) e). 0 \<le> i \<and> i < int (length pages)"
    by (auto simp: py_range_def)
  have empty: "PoemTok_process pages create_video start_page end_page = Inr []"
    if "e < s"
  proof -
    have "py_range (s - 1) e = []" using that by (simp add: py_range_def)
    then show ?thesis by (simp add: PoemTok_process_def r)
  qed
  have "PoemTok_process pages create_video start_page end_page
              = Inr (map (\<lambda>i. i + 1) (py_range (s - 1) e))"
    if "\<forall>page n. create_video page n = Inr ()"
    using pages_loop [OF idx that, of "[]"] by (simp add: PoemTok_process_def r)
  then show ?thesis using clamp idx empty by (simp add: r)
qed

theorem page_range_clamping_witness:
  "adjust_page_range (- 2) (Some 7) (length [''a'', ''b'', ''c'']) = (1, 3) \<and>
   PoemTok_process [''a'', ''b'', ''c''] (\<lambda>p n. Inr ()) (- 2) (Some 7) = Inr [1, 2, 3] \<and>
   adjust_page_range 3 None (length [''a'', ''b'', ''c'', ''d'']) = (3, 4) \<and>
   PoemTok_process [''a'', ''b'', ''c'', ''d''] (\<lambda>p n. Inr ()) 3 None = Inr [3, 4] \<and>
   PoemTok_process [''a'', ''b'', ''c''] (\<lambda>p n. Inl OtherException) 5 None = Inr []"
proof -
  have r: "adjust_page_range (- 2) (Some 7) (length [''a'', ''b'', ''c'']) = (1, 3)"
    "adjust_page_range 3 None (length [''a'', ''b'', ''c'', ''d'']) = (3, 4)"
    by (simp_all add: adjust_page_range_def)
  have rg: "py_range 0 3 = [0, 1, 2]" "py_range 2 4 = [2, 3]" by code_simp+
  have "PoemTok_process [''a'', ''b'', ''c''] (\<lambda>p n. Inr ()) (- 2) (Some 7) = Inr [1, 2, 3]"
    using page_range_clamping [where pages = "[''a'', ''b'', ''c'']" and start_page = "- 2"
        and end_page = "Some 7" and create_video = "\<lambda>p n. Inr ()"]
    by (simp add: adjust_page_range_def rg)
  moreover
  have "PoemTok_process [''a'', ''b'', ''c'', ''d''] (\<lambda>p n. Inr ()) 3 None = Inr [3, 4]"
    using page_range_clamping [where pages = "[''a'', ''b'', ''c'', ''d'']" and start_page = 3
        and end_page = None and create_video = "\<lambda>p n. Inr ()"]
    by (simp add: adjust_page_range_def rg)
  moreover
  have "PoemTok_process [''a'', ''b'', ''c''] (\<lambda>p n. Inl OtherException) 5 None = Inr []"
    using page_range_clamping [where pages = "[''a'', ''b'', ''c'']" and start_page = 5
        and end_page = None and create_video = "\<lambda>p n. Inl OtherException"]
    by (simp add: adjust_page_range_def)
  ultimately show ?thesis using r by simp
qed

text \<open>
  The example for C6: with 3 pages, a requested start of 5 stays 5 and a requested end of
  \<open>-4\<close> stays \<open>-4\<close>; neither is a page of the document. In both cases the loop renders
  nothing.
\<close>

theorem page_range_not_clamped:
  "adjust_page_range 5 None 3 = (5, 3) \<and> adjust_page_range 1 (Some (- 4)) 3 = (1, - 4)"
  by (simp add: adjust_page_range_def)

section \<open>Failures of single pages\<close>

lemma create_video_with_image_launched:
  assumes "launched run"
  shows "create_video_with_image run output_path
           = Inr (if run = Exited 0 then Some output_path else None)"
  using assms
  by (cases run) (simp_all add: create_video_with_image_def subprocess_run_def launched_def)

lemma image_videos_loop:
  assumes "\<forall>n. launched (ffmpeg n)"
  shows "for_each (enumerate k processed_images) (\<lambda>(i, image_path) output_videos.
           let output_path = int i + start_page
           in case create_video_with_image (ffmpeg output_path) output_path of
                Inl e \<Rightarrow> Inl e
              | Inr result \<Rightarrow>
                  (case result of
                     Some r \<Rightarrow> Inr (output_videos @ [r])
                   | None \<Rightarrow> Inr output_videos))
           acc
         = Inr (acc @ filter (\<lambda>n. ffmpeg n = Exited 0)
                        (map (\<lambda>i. int i + start_page) [k..<k + length processed_images]))"
proof (induction processed_images arbitrary: k acc)
  case Nil
  show ?case by simp
next
  case (Cons image_path rest)
  have "k < k + length (image_path # rest)" by simp
  from upt_conv_Cons [OF this]
  have "[k..<k + length (image_path # rest)] = k # [Suc k..<Suc k + length rest]"
    by simp
  then show ?case
    using Cons.IH [of "Suc k"] assms
    by (simp add: create_video_with_image_launched Let_def)
qed

text \<open>
  C8, as far as it holds. In \<open>PoemTokImage.process\<close> a page whose tool run exits with a
  non-zero code is skipped and the loop goes on: when every run of the tool exits (with
  any code), the loop returns, and its result lists, in order, exactly the page numbers
  whose run exited with 0.
\<close>

theorem image_batch_continues:
  assumes "\<forall>n. launched (ffmpeg n)"
  shows "PoemTokImage_process processed_images ffmpeg start_page
           = Inr (filter (\<lambda>n. ffmpeg n = Exited 0)
                    (map (\<lambda>i. int i + start_page) [0..<length processed_images]))"
  using image_videos_loop [OF assms, of 0 processed_images start_page "[]"]
  by (simp add: PoemTokImage_process_def)

theorem image_batch_continues_witness:
  "PoemTokImage_process [''p1.png'', ''p2.png'', ''p3.png'']
     (\<lambda>n. if n = 2 then Exited 1 else Exited 0) 1 = Inr [1, 3]"
proof -
  have l: "\<forall>n. launched ((\<lambda>n. if n = 2 then Exited 1 else Exited 0) n)"
    by (simp add: launched_def)
  have "[0..<length [''p1.png'', ''p2.png'', ''p3.png'']] = [0, 1, 2]"
    by (simp add: upt_conv_Cons)
  then show ?thesis
    using image_batch_continues [OF l, of "[''p1.png'', ''p2.png'', ''p3.png'']" 1]
    by simp
qed

text \<open>
  The part of C8 that fails. In \<open>PoemTok.process\<close> nothing catches an exception of
  \<open>create_video\<close>: when rendering page 2 of three pages raises, the run ends with that
  exception and page 3 is never rendered. In \<open>PoemTokImage.process\<close> only a non-zero exit
  is caught: a tool that cannot be started for page 2 ends the run as well.
\<close>

theorem page_failure_aborts_batch:
  "PoemTok_process [''page1'', ''page2'', ''page3'']
     (\<lambda>page n. if n = 2 then Inl OtherException else Inr ()) 1 None = Inl OtherException \<and>
   PoemTokImage_process [''p1.png'', ''p2.png'', ''p3.png'']
     (\<lambda>n. if n = 2 then NotStarted else Exited 0) 1 = Inl OSError"
proof -
  have rg: "py_range 0 3 = [0, 1, 2]" by code_simp
  have "PoemTok_process [''page1'', ''page2'', ''page3'']
     (\<lambda>page n. if n = 2 then Inl OtherException else Inr ()) 1 None = Inl OtherException"
    by (simp add: PoemTok_process_def adjust_page_range_def rg py_index_def)
  moreover have "PoemTokImage_process [''p1.png'', ''p2.png'', ''p3.png'']
     (\<lambda>n. if n = 2 then NotStarted else Exited 0) 1 = Inl OSError"
    by (simp add: PoemTokImage_process_def enumerate_eq_zip upt_conv_Cons
          create_video_with_image_def subprocess_run_def)
  ultimately show ?thesis by simp
qed

section \<open>The fallback chain\<close>

lemma fl64_tenth: "fl64 (1 / 10) = 3602879701896397 / 36028797018963968"
  using fl64_quotient [of 10 56 1] by (simp add: rhe_int_def)

lemma below_tenth:
  assumes "d < 1 / 10"
  shows "float_less (Finite d) (fl64 (1 / 10))"
proof -
  have "(1 / 10 :: rat) < 3602879701896397 / 36028797018963968" by simp
  then show ?thesis using assms by (simp add: float_less_def fl64_tenth)
qed

lemma subprocess_run_cases:
  "subprocess_run (Exited 0) = Inr ()"
  "c \<noteq> 0 \<Longrightarrow> subprocess_run (Exited c) = Inl CalledProcessError"
  "subprocess_run NotStarted = Inl OSError"
  by (simp_all add: subprocess_run_def)

lemma launched_Exited: "launched p \<Longrightarrow> \<exists>c. p = Exited c"
  by (cases p) (simp_all add: launched_def)

lemma direct_result:
  assumes "launched (direct_run t)"
  shows "create_video_direct t out cmds
           = (cmds @ [FfmpegDirect], Inr (if direct_ok t then Some out else None))"
proof -
  obtain c where c: "direct_run t = Exited c" using launched_Exited [OF assms] by blast
  show ?thesis
    by (cases "c = 0") (simp_all add: create_video_direct_def c subprocess_run_cases direct_ok_def)
qed

lemma alternative_result:
  assumes "launched (image_video_run t)" "launched (overlay_temp_run t)"
  shows "alternative_ok t \<Longrightarrow>
           create_video_alternative t out cmds
             = (cmds @ [FfmpegImageVideo, FfmpegOverlayTemp], Inr (Some out))"
    and "\<not> alternative_ok t \<Longrightarrow>
           create_video_alternative t out cmds
             = create_video_direct t out
                 (if image_video_run t = Exited 0
                  then cmds @ [FfmpegImageVideo, FfmpegOverlayTemp]
                  else cmds @ [FfmpegImageVideo])"
proof -
  obtain c1 c2 where c: "image_video_run t = Exited c1" "overlay_temp_run t = Exited c2"
    using launched_Exited [OF assms(1)] launched_Exited [OF assms(2)] by blast
  show "alternative_ok t \<Longrightarrow>
           create_video_alternative t out cmds
             = (cmds @ [FfmpegImageVideo, FfmpegOverlayTemp], Inr (Some out))"
    by (simp add: alternative_ok_def create_video_alternative_def subprocess_run_cases)
  show "\<not> alternative_ok t \<Longrightarrow>
           create_video_alternative t out cmds
             = create_video_direct t out
                 (if image_video_run t = Exited 0
                  then cmds @ [FfmpegImageVideo, FfmpegOverlayTemp]
                  else cmds @ [FfmpegImageVideo])"
    by (cases "c1 = 0"; cases "c2 = 0")
      (simp_all add: alternative_ok_def create_video_alternative_def c subprocess_run_cases)
qed

lemma makedirs_ok:
  assumes "dir_creatable t" "os_path_dirname out \<noteq> []"
  shows "os_makedirs (dir_creatable t) (os_path_dirname out) = Inr ()"
  using assms by (simp add: os_makedirs_def)

lemma no_directory_part:
  assumes "os_path_dirname out = []"
  shows "create_video_with_overlay t out = ([], Inl FileNotFoundError)"
  using assms by (simp add: create_video_with_overlay_def os_makedirs_def)

lemma primary_result:
  assumes "launched (overlay_run t)" "launched (probe_run t)"
    and "dir_creatable t" "os_path_dirname out \<noteq> []"
  shows "primary_ok t \<Longrightarrow>
           create_video_with_overlay t out = ([FfmpegOverlay, Ffprobe], Inr (Some out))"
    and "\<not> primary_ok t \<Longrightarrow>
           create_video_with_overlay t out
             = create_video_alternative t out
                 (if overlay_run t = Exited 0 then [FfmpegOverlay, Ffprobe] else [FfmpegOverlay])"
proof -
  obtain c1 c2 where c: "overlay_run t = Exited c1" "probe_run t = Exited c2"
    using launched_Exited [OF assms(1)] launched_Exited [OF assms(2)] by blast
  show "primary_ok t \<Longrightarrow>
           create_video_with_overlay t out = ([FfmpegOverlay, Ffprobe], Inr (Some out))"
    by (auto simp: primary_ok_def create_video_with_overlay_def subprocess_run_cases
          makedirs_ok [OF assms(3,4)] split: option.splits)
  show "\<not> primary_ok t \<Longrightarrow>
           create_video_with_overlay t out
             = create_video_alternative t out
                 (if overlay_run t = Exited 0 then [FfmpegOverlay, Ffprobe] else [FfmpegOverlay])"
    by (cases "c1 = 0"; cases "c2 = 0")
      (auto simp: primary_ok_def create_video_with_overlay_def c subprocess_run_cases
         makedirs_ok [OF assms(3,4)] split: option.splits)
qed

text \<open>
  C7. The fallback chain of \<open>create_video_with_overlay\<close>, when the output path has a
  directory part that can be created and every tool can be started.
  A non-zero exit of the primary command, or a probe that reports an unparsable duration
  or one below 0.1, makes it call the alternative method; an alternative method that
  fails calls the direct method. The output path is returned as soon as a level succeeds,
  without running the commands of later levels, and \<open>None\<close> is returned exactly when all
  three levels fail.
\<close>

theorem fallback_chain:
  assumes "all_launched t" "dir_creatable t" "os_path_dirname out \<noteq> []"
  shows "(\<forall>c. overlay_run t = Exited c \<and> c \<noteq> 0 \<longrightarrow>
            create_video_with_overlay t out = create_video_alternative t out [FfmpegOverlay]) \<and>
         (overlay_run t = Exited 0 \<and> probe_run t = Exited 0 \<and>
            (probe_duration t = None \<or> (\<exists>d. probe_duration t = Some (Finite d) \<and> d < 1 / 10)) \<longrightarrow>
            create_video_with_overlay t out
              = create_video_alternative t out [FfmpegOverlay, Ffprobe]) \<and>
         (\<not> alternative_ok t \<longrightarrow>
            (\<forall>cmds. \<exists>cmds'. create_video_alternative t out cmds
                              = create_video_direct t out cmds')) \<and>
         (primary_ok t \<longrightarrow>
            create_video_with_overlay t out = ([FfmpegOverlay, Ffprobe], Inr (Some out))) \<and>
         (\<not> primary_ok t \<and> alternative_ok t \<longrightarrow>
            snd (create_video_with_overlay t out) = Inr (Some out) \<and>
            FfmpegImageVideo \<in> set (fst (create_video_with_overlay t out)) \<and>
            FfmpegDirect \<notin> set (fst (create_video_with_overlay t out))) \<and>
         (\<not> primary_ok t \<and> \<not> alternative_ok t \<longrightarrow>
            FfmpegDirect \<in> set (fst (create_video_with_overlay t out)) \<and>
            snd (create_video_with_overlay t out)
              = Inr (if direct_ok t then Some out else None)) \<and>
         (snd (create_video_with_overlay t out) = Inr None
            \<longleftrightarrow> \<not> primary_ok t \<and> \<not> alternative_ok t \<and> \<not> direct_ok t)"
proof -
  have l: "launched (overlay_run t)" "launched (probe_run t)" "launched (image_video_run t)"
    "launched (overlay_temp_run t)" "launched (direct_run t)"
    using assms by (simp_all add: all_launched_def)
  note p = primary_result [OF l(1,2) assms(2,3)]
  note a = alternative_result [OF l(3,4), of out]
  note d = direct_result [OF l(5), of out]
  have 1: "create_video_with_overlay t out = create_video_alternative t out [FfmpegOverlay]"
    if "overlay_run t = Exited c" "c \<noteq> 0" for c
    using that p(2) by (simp add: primary_ok_def)
  have 2: "create_video_with_overlay t out
              = create_video_alternative t out [FfmpegOverlay, Ffprobe]"
    if "overlay_run t = Exited 0" "probe_run t = Exited 0"
      "probe_duration t = None \<or> (\<exists>d. probe_duration t = Some (Finite d) \<and> d < 1 / 10)"
  proof -
    have "\<not> primary_ok t" using that(3) below_tenth by (auto simp: primary_ok_def)
    then show ?thesis using p(2) that(1) by simp
  qed
  have 3: "\<exists>cmds'. create_video_alternative t out cmds = create_video_direct t out cmds'"
    if "\<not> alternative_ok t" for cmds
    using a(2) [OF that] by blast
  have 5: "snd (create_video_with_overlay t out) = Inr (Some out) \<and>
            FfmpegImageVideo \<in> set (fst (create_video_with_overlay t out)) \<and>
            FfmpegDirect \<notin> set (fst (create_video_with_overlay t out))"
    if "\<not> primary_ok t" "alternative_ok t"
    using p(2) [OF that(1)] a(1) [OF that(2)] by simp
  have 6: "FfmpegDirect \<in> set (fst (create_video_with_overlay t out)) \<and>
            snd (create_video_with_overlay t out)
              = Inr (if direct_ok t then Some out else None)"
    if "\<not> primary_ok t" "\<not> alternative_ok t"
    using p(2) [OF that(1)] a(2) [OF that(2)] d by simp
  have 7: "snd (create_video_with_overlay t out) = Inr None
            \<longleftrightarrow> \<not> primary_ok t \<and> \<not> alternative_ok t \<and> \<not> direct_ok t"
  proof (cases "primary_ok t")
    case True
    then show ?thesis using p(1) by simp
  next
    case np: False
    show ?thesis
    proof (cases "alternative_ok t")
      case True
      then show ?thesis using 5 [OF np] by simp
    next
      case False
      then show ?thesis using 6 [OF np] np by simp
    qed
  qed
  show ?thesis using 1 2 3 p(1) 5 6 7 by blast
qed

theorem fallback_chain_witness:
  "all_launched \<lparr>dir_creatable = True, overlay_run = Exited 0, probe_run = Exited 0,
                  probe_duration = Some (Finite 0), image_video_run = Exited 0,
                  overlay_temp_run = Exited 1, direct_run = Exited 0\<rparr> \<and>
   os_path_dirname ''output/output.mp4'' = ''output'' \<and>
   create_video_with_overlay
     \<lparr>dir_creatable = True, overlay_run = Exited 0, probe_run = Exited 0,
      probe_duration = Some (Finite 0), image_video_run = Exited 0,
      overlay_temp_run = Exited 1, direct_run = Exited 0\<rparr> ''output/output.mp4''
     = create_video_alternative
         \<lparr>dir_creatable = True, overlay_run = Exited 0, probe_run = Exited 0,
          probe_duration = Some (Finite 0), image_video_run = Exited 0,
          overlay_temp_run = Exited 1, direct_run = Exited 0\<rparr> ''output/output.mp4''
         [FfmpegOverlay, Ffprobe] \<and>
   snd (create_video_with_overlay
     \<lparr>dir_creatable = True, overlay_run = Exited 0, probe_run = Exited 0,
      probe_duration = Some (Finite 0), image_video_run = Exited 0,
      overlay_temp_run = Exited 1, direct_run = Exited 0\<rparr> ''output/output.mp4'')
     = Inr (Some ''output/output.mp4'')"
proof -
  let ?t = "\<lparr>dir_creatable = True, overlay_run = Exited 0, probe_run = Exited 0,
             probe_duration = Some (Finite 0), image_video_run = Exited 0,
             overlay_temp_run = Exited 1, direct_run = Exited 0\<rparr>"
  have l: "all_launched ?t" by (simp add: all_launched_def launched_def)
  have c: "dir_creatable ?t" by simp
  have dn: "os_path_dirname ''output/output.mp4'' = ''output''"
    by (simp add: os_path_dirname_def)
  have ne: "os_path_dirname ''output/output.mp4'' \<noteq> []"
    by (simp add: dn)
  have np: "\<not> primary_ok ?t" using below_tenth [of 0] by (simp add: primary_ok_def)
  have na: "\<not> alternative_ok ?t" by (simp add: alternative_ok_def)
  have d: "direct_ok ?t" by (simp add: direct_ok_def)
  have first: "create_video_with_overlay ?t ''output/output.mp4''
                 = create_video_alternative ?t ''output/output.mp4'' [FfmpegOverlay, Ffprobe]"
    using fallback_chain [OF l c ne] by simp
  have "snd (create_video_with_overlay ?t ''output/output.mp4'')
          = Inr (if direct_ok ?t then Some ''output/output.mp4'' else None)"
    using fallback_chain [OF l c ne] np na by blast
  then have last: "snd (create_video_with_overlay ?t ''output/output.mp4'')
                     = Inr (Some ''output/output.mp4'')"
    by (simp only: d if_True)
  show ?thesis
    using l dn first last by blast
qed

section \<open>The optional OCR\<close>

lemma py_int_quotient:
  assumes "0 \<le> a" "0 < b"
  shows "py_int (of_int a / of_int b) = a div b"
proof -
  have "(0::rat) \<le> of_int a / of_int b" using assms by simp
  then show ?thesis by (simp add: py_int_def floor_divide_of_int_eq)
qed

lemma scaled_size_positive_page:
  assumes "0 < page_w" "0 < page_h"
  shows "scaled_size (res_w, res_h) (page_w, page_h)
           = Inr (py_int (fl64 (of_int page_w *
                    min (fl64 (fl64 (of_int res_w * fl64 (4 / 5)) / of_int page_w))
                        (fl64 (fl64 (of_int res_h * fl64 (4 / 5)) / of_int page_h)))),
                  py_int (fl64 (of_int page_h *
                    min (fl64 (fl64 (of_int res_w * fl64 (4 / 5)) / of_int page_w))
                        (fl64 (fl64 (of_int res_h * fl64 (4 / 5)) / of_int page_h)))))"
  using assms by (simp add: scaled_size_def py_float_div_def Let_def)

lemma fl64_four_fifths: "fl64 (4 / 5) = 3602879701896397 / 4503599627370496"
  using fl64_quotient [of 5 53 4] by (simp add: rhe_int_def)

lemma scaled_size_default: "scaled_size (1080, 1920) (1000, 1400) = Inr (864, 1209)"
proof -
  have "fl64 (of_int (1080 * 3602879701896397) / of_int 4503599627370496) = 864"
    by (subst fl64_quotient [where s = 43]) (simp_all add: rhe_int_def)
  then have x: "fl64 (of_int 1080 * (3602879701896397 / 4503599627370496)) = 864"
    by simp
  have "fl64 (of_int 864 / of_int 1000) = 7782220156096217 / 9007199254740992"
    by (subst fl64_quotient [where s = 53]) (simp_all add: rhe_int_def)
  then have sx: "fl64 (864 / of_int 1000) = 7782220156096217 / 9007199254740992"
    by simp
  have "fl64 (of_int (1920 * 3602879701896397) / of_int 4503599627370496) = 1536"
    by (subst fl64_quotient [where s = 42]) (simp_all add: rhe_int_def)
  then have y: "fl64 (of_int 1920 * (3602879701896397 / 4503599627370496)) = 1536"
    by simp
  have "fl64 (of_int 1536 / of_int 1400) = 4941092162600773 / 4503599627370496"
    by (subst fl64_quotient [where s = 52]) (simp_all add: rhe_int_def)
  then have sy: "fl64 (1536 / of_int 1400) = 4941092162600773 / 4503599627370496"
    by simp
  have mn: "min (7782220156096217 / 9007199254740992 :: rat)
              (4941092162600773 / 4503599627370496) = 7782220156096217 / 9007199254740992"
    by simp
  have "fl64 (of_int (1000 * 7782220156096217) / of_int 9007199254740992) = 864"
    by (subst fl64_quotient [where s = 43]) (simp_all add: rhe_int_def)
  then have nw: "fl64 (of_int 1000 * (7782220156096217 / 9007199254740992)) = 864"
    by simp
  have "fl64 (of_int (1400 * 7782220156096217) / of_int 9007199254740992)
          = 2659938529915699 / 2199023255552"
    by (subst fl64_quotient [where s = 42]) (simp_all add: rhe_int_def)
  then have nh: "fl64 (of_int 1400 * (7782220156096217 / 9007199254740992))
                   = 2659938529915699 / 2199023255552"
    by simp
  have pw: "py_int 864 = 864"
    using py_int_of_int [of 864] by simp
  have ph: "py_int (2659938529915699 / 2199023255552) = 1209"
    using py_int_quotient [of 2659938529915699 2199023255552] by simp
  have pos: "(0::int) < 1000" "(0::int) < 1400" by simp_all
  show ?thesis
    unfolding scaled_size_positive_page [OF pos] fl64_four_fifths x sx y sy mn nw nh pw ph
    by (rule refl)
qed

lemma scaled_size_tiny: "scaled_size (1, 1) (1000, 1400) = Inr (0, 0)"
proof -
  have "fl64 (of_int 3602879701896397 / 2 ^ 52) = of_int 3602879701896397 / 2 ^ 52"
    by (rule fl64_exact) simp_all
  then have x: "fl64 (of_int 1 * (3602879701896397 / 4503599627370496))
                  = 3602879701896397 / 4503599627370496"
    by simp
  have "fl64 (of_int 3602879701896397 / of_int (4503599627370496 * 1000))
          = 7378697629483821 / 9223372036854775808"
    by (subst fl64_quotient [where s = 63]) (simp_all add: rhe_int_def)
  then have sx: "fl64 (3602879701896397 / 4503599627370496 / of_int 1000)
                   = 7378697629483821 / 9223372036854775808"
    by simp
  have "fl64 (of_int 3602879701896397 / of_int (4503599627370496 * 1400))
          = 2635249153387079 / 4611686018427387904"
    by (subst fl64_quotient [where s = 63]) (simp_all add: rhe_int_def)
  then have sy: "fl64 (3602879701896397 / 4503599627370496 / of_int 1400)
                   = 2635249153387079 / 4611686018427387904"
    by simp
  have mn: "min (7378697629483821 / 9223372036854775808 :: rat)
              (2635249153387079 / 4611686018427387904) = 2635249153387079 / 4611686018427387904"
    by simp
  have "fl64 (of_int (1000 * 2635249153387079) / of_int 4611686018427387904)
          = 5146971002709139 / 9007199254740992"
    by (subst fl64_quotient [where s = 53]) (simp_all add: rhe_int_def)
  then have nw: "fl64 (of_int 1000 * (2635249153387079 / 4611686018427387904))
                   = 5146971002709139 / 9007199254740992"
    by simp
  have "fl64 (of_int (1400 * 2635249153387079) / of_int 4611686018427387904)
          = 3602879701896397 / 4503599627370496"
    by (subst fl64_quotient [where s = 53]) (simp_all add: rhe_int_def)
  then have nh: "fl64 (of_int 1400 * (2635249153387079 / 4611686018427387904))
                   = 3602879701896397 / 4503599627370496"
    by simp
  have pw: "py_int (5146971002709139 / 9007199254740992) = 0"
    using py_int_quotient [of 5146971002709139 9007199254740992] by simp
  have ph: "py_int (3602879701896397 / 4503599627370496) = 0"
    using py_int_quotient [of 3602879701896397 4503599627370496] by simp
  have pos: "(0::int) < 1000" "(0::int) < 1400" by simp_all
  show ?thesis
    unfolding scaled_size_positive_page [OF pos] fl64_four_fifths x sx sy mn nw nh pw ph
    by (rule refl)
qed

text \<open>
  C9, as far as it holds. The import of \<open>pytesseract\<close> is tried once, at import time; when
  the module is missing the flag is false and nothing is raised. When the flag is false or
  the OCR call raises, \<open>create_text_overlay\<close> falls back to the image-based overlay of the
  page. That fallback is not guarded: it returns the overlay, with the page scaled into
  80 percent of the frame, centred, on a rectangle 60 pixels wider on each side, when the
  frame has no negative side and both sides of the scaled size are at least 1.
\<close>

theorem ocr_optional:
  assumes "0 \<le> res_w" "0 \<le> res_h"
    and "scaled_size (res_w, res_h) (page_w, page_h) = Inr (new_w, new_h)"
    and "1 \<le> new_w" "1 \<le> new_h"
    and "\<not> has_pytesseract \<or> (\<exists>e. image_to_string page_image = Inl e)"
  shows "HAS_PYTESSERACT installed = Inr installed \<and>
         create_text_overlay has_pytesseract image_to_string create_minimalist_overlay
             (res_w, res_h) page_image (page_w, page_h)
           = Inr (ImageBased
                \<lparr>new_size = (new_w, new_h),
                 pos = ((res_w - new_w) div 2, (res_h - new_h) div 2),
                 rectangle = ((res_w - new_w) div 2 - 60, (res_h - new_h) div 2 - 60,
                              (res_w - new_w) div 2 + new_w + 60,
                              (res_h - new_h) div 2 + new_h + 60)\<rparr>)"
proof -
  have g: "image_based_overlay (res_w, res_h) (page_w, page_h)
             = Inr \<lparr>new_size = (new_w, new_h),
                    pos = ((res_w - new_w) div 2, (res_h - new_h) div 2),
                    rectangle = ((res_w - new_w) div 2 - 60, (res_h - new_h) div 2 - 60,
                                 (res_w - new_w) div 2 + new_w + 60,
                                 (res_h - new_h) div 2 + new_h + 60)\<rparr>"
    using assms(1,2,4,5) by (simp add: image_based_overlay_def assms(3) Let_def)
  have "create_text_overlay has_pytesseract image_to_string create_minimalist_overlay
          (res_w, res_h) page_image (page_w, page_h)
          = Inr (ImageBased
                \<lparr>new_size = (new_w, new_h),
                 pos = ((res_w - new_w) div 2, (res_h - new_h) div 2),
                 rectangle = ((res_w - new_w) div 2 - 60, (res_h - new_h) div 2 - 60,
                              (res_w - new_w) div 2 + new_w + 60,
                              (res_h - new_h) div 2 + new_h + 60)\<rparr>)"
    using assms(6) by (auto simp: create_text_overlay_def g Let_def)
  moreover have "HAS_PYTESSERACT installed = Inr installed"
    by (simp add: HAS_PYTESSERACT_def import_pytesseract_def)
  ultimately show ?thesis by blast
qed

theorem ocr_optional_witness:
  "scaled_size (1080, 1920) (1000, 1400) = Inr (864, 1209) \<and>
   HAS_PYTESSERACT False = Inr False \<and>
   create_text_overlay False (\<lambda>page. Inr ''a poem'') (\<lambda>text. Inr text)
       (1080, 1920) ''page 1'' (1000, 1400)
     = Inr (ImageBased \<lparr>new_size = (864, 1209), pos = (108, 355),
                        rectangle = (48, 295, 1032, 1624)\<rparr>) \<and>
   create_text_overlay True (\<lambda>page. Inl OtherException) (\<lambda>text. Inr text)
       (1080, 1920) ''page 1'' (1000, 1400)
     = Inr (ImageBased \<lparr>new_size = (864, 1209), pos = (108, 355),
                        rectangle = (48, 295, 1032, 1624)\<rparr>)"
proof -
  have off: "create_text_overlay False (\<lambda>page. Inr ''a poem'') (\<lambda>text. Inr text)
       (1080, 1920) ''page 1'' (1000, 1400)
     = Inr (ImageBased \<lparr>new_size = (864, 1209), pos = (108, 355),
                        rectangle = (48, 295, 1032, 1624)\<rparr>)"
    using ocr_optional [where res_w = 1080 and res_h = 1920 and page_w = 1000
        and page_h = 1400 and new_w = 864 and new_h = 1209 and has_pytesseract = False
        and image_to_string = "\<lambda>page. Inr ''a poem''" and page_image = "''page 1''"
        and create_minimalist_overlay = "\<lambda>text. Inr text" and installed = False]
      scaled_size_default
    by simp
  have raises: "create_text_overlay True (\<lambda>page. Inl OtherException) (\<lambda>text. Inr text)
       (1080, 1920) ''page 1'' (1000, 1400)
     = Inr (ImageBased \<lparr>new_size = (864, 1209), pos = (108, 355),
                        rectangle = (48, 295, 1032, 1624)\<rparr>)"
    using ocr_optional [where res_w = 1080 and res_h = 1920 and page_w = 1000
        and page_h = 1400 and new_w = 864 and new_h = 1209 and has_pytesseract = True
        and image_to_string = "\<lambda>page. Inl OtherException" and page_image = "''page 1''"
        and create_minimalist_overlay = "\<lambda>text. Inr text" and installed = False]
      scaled_size_default
    by simp
  have flag: "HAS_PYTESSERACT False = Inr False"
    using ocr_optional [where res_w = 1080 and res_h = 1920 and page_w = 1000
        and page_h = 1400 and new_w = 864 and new_h = 1209 and has_pytesseract = False
        and image_to_string = "\<lambda>page. Inr ''a poem''" and page_image = "''page 1''"
        and create_minimalist_overlay = "\<lambda>text. Inr text" and installed = False]
      scaled_size_default
    by simp
  show ?thesis
    using scaled_size_default off raises flag by blast
qed

text \<open>
  The example for C9: with the frame set to 1 by 1 (\<open>--resolution 1x1\<close>) a page of 1000 by
  1400 pixels is scaled to 0 by 0, and \<open>resize\<close> raises ValueError, which nothing catches:
  \<open>create_text_overlay\<close> propagates the error instead of returning an overlay.
\<close>

theorem fallback_raises_on_empty_size:
  "create_text_overlay False (\<lambda>page. Inr ''a poem'') (\<lambda>text. Inr text)
     (1, 1) ''page 1'' (1000, 1400) = Inl ValueError"
  by (simp add: create_text_overlay_def image_based_overlay_def scaled_size_tiny)

end
